theory Spec2Isabelle
  imports Main
begin

section \<open>Data model\<close>

text \<open>
  A grid is \<^verbatim>\<open>(number | null)[][]\<close>. A read outside a row yields \<^verbatim>\<open>undefined\<close>, so the
  values a read can produce are \<^verbatim>\<open>undefined\<close>, \<^verbatim>\<open>null\<close> and numbers. Cell values are the
  natural numbers (the engine only ever stores \<open>1..maxNumber\<close>); \<^verbatim>\<open>===\<close> on these values
  is HOL equality.
\<close>

datatype jsval = Undefined | Null | Num nat

type_synonym SudokuGrid = "jsval list list"

text \<open>The field \<^verbatim>\<open>size\<close> is named \<open>size_cfg\<close>: \<open>size\<close> is a constant of HOL.\<close>

record GridConfig =
  size_cfg :: nat
  subGridRows :: nat
  subGridCols :: nat
  maxNumber :: nat

text \<open>\<^verbatim>\<open>CellPosition = {row, col}\<close> is the pair \<open>(row, col)\<close>.\<close>

type_synonym CellPosition = "nat \<times> nat"

record ValidationResult =
  isValid :: bool
  conflicts :: "CellPosition list"

datatype Difficulty = easy | medium | hard

text \<open>The only exception the engine can raise: a property read or write on \<^verbatim>\<open>undefined\<close>.\<close>

datatype error = TypeError

text \<open>
  \<^verbatim>\<open>grid[r][c]\<close>: \<^verbatim>\<open>grid[r]\<close> is \<^verbatim>\<open>undefined\<close> when \<open>r\<close> is not a row index, and reading
  \<^verbatim>\<open>[c]\<close> from it throws; inside a row, an index that is out of range reads \<^verbatim>\<open>undefined\<close>.
\<close>

definition cell_at :: "SudokuGrid \<Rightarrow> nat \<Rightarrow> nat \<Rightarrow> error + jsval" where
  "cell_at grid r c =
     (if r < length grid
      then Inr (if c < length (grid ! r) then grid ! r ! c else Undefined)
      else Inl TypeError)"

text \<open>
  \<^verbatim>\<open>grid[r][c] = v\<close>: throws when \<^verbatim>\<open>grid[r]\<close> is \<^verbatim>\<open>undefined\<close>; a write past the end of a
  row extends the row, the holes in between reading \<^verbatim>\<open>undefined\<close>.
\<close>

definition set_cell :: "SudokuGrid \<Rightarrow> nat \<Rightarrow> nat \<Rightarrow> jsval \<Rightarrow> error + SudokuGrid" where
  "set_cell grid r c v =
     (if r < length grid
      then Inr (grid[r := (if c < length (grid ! r) then (grid ! r)[c := v]
                           else grid ! r @ replicate (c - length (grid ! r)) Undefined @ [v])])
      else Inl TypeError)"

section \<open>Loops\<close>

text \<open>
  A \<^verbatim>\<open>for\<close> loop whose body may leave the function early: \<open>for_any body xs\<close> runs the body
  on the elements in order and stops at the first one where the body exits (\<open>True\<close>) or throws.
\<close>

fun for_any :: "('a \<Rightarrow> error + bool) \<Rightarrow> 'a list \<Rightarrow> error + bool" where
  "for_any body [] = Inr False"
| "for_any body (x # xs) =
     (case body x of
        Inl e \<Rightarrow> Inl e
      | Inr True \<Rightarrow> Inr True
      | Inr False \<Rightarrow> for_any body xs)"

text \<open>A \<^verbatim>\<open>for\<close> loop that updates state and may throw.\<close>

fun for_each :: "('a \<Rightarrow> 's \<Rightarrow> error + 's) \<Rightarrow> 'a list \<Rightarrow> 's \<Rightarrow> error + 's" where
  "for_each body [] s = Inr s"
| "for_each body (x # xs) s =
     (case body x s of
        Inl e \<Rightarrow> Inl e
      | Inr s' \<Rightarrow> for_each body xs s')"

section \<open>The constraint engine\<close>

text \<open>\<^verbatim>\<open>grid[r][c] === num\<close>, as a loop body.\<close>

definition holds :: "SudokuGrid \<Rightarrow> nat \<Rightarrow> nat \<Rightarrow> jsval \<Rightarrow> error + bool" where
  "holds grid r c num = (case cell_at grid r c of Inl e \<Rightarrow> Inl e | Inr x \<Rightarrow> Inr (x = num))"

text \<open>
  \<^verbatim>\<open>isValidMove\<close>: the row scan, the column scan and the box scan, each returning \<^verbatim>\<open>false\<close>
  at the first duplicate. \<^verbatim>\<open>&&\<close> short-circuits, so the cell itself is never read by the
  scans. \<^verbatim>\<open>Math.floor(row / R) * R\<close> is \<open>row div R * R\<close> for \<open>R > 0\<close>; for \<open>R = 0\<close> the
  source's box loop runs no iteration (its bound is \<^verbatim>\<open>NaN\<close>), and neither does this one.
\<close>

definition isValidMove ::
  "SudokuGrid \<Rightarrow> nat \<Rightarrow> nat \<Rightarrow> jsval \<Rightarrow> GridConfig \<Rightarrow> error + bool" where
  "isValidMove grid row col num gridConfig =
     (case for_any (\<lambda>c. if c \<noteq> col then holds grid row c num else Inr False)
             [0..<size_cfg gridConfig] of
        Inl e \<Rightarrow> Inl e
      | Inr True \<Rightarrow> Inr False
      | Inr False \<Rightarrow>
     (case for_any (\<lambda>r. if r \<noteq> row then holds grid r col num else Inr False)
             [0..<size_cfg gridConfig] of
        Inl e \<Rightarrow> Inl e
      | Inr True \<Rightarrow> Inr False
      | Inr False \<Rightarrow>
     (let boxStartRow = row div subGridRows gridConfig * subGridRows gridConfig;
          boxStartCol = col div subGridCols gridConfig * subGridCols gridConfig
      in case for_any (\<lambda>r.
                for_any (\<lambda>c. if r \<noteq> row \<or> c \<noteq> col then holds grid r c num else Inr False)
                  [boxStartCol..<boxStartCol + subGridCols gridConfig])
              [boxStartRow..<boxStartRow + subGridRows gridConfig] of
           Inl e \<Rightarrow> Inl e
         | Inr True \<Rightarrow> Inr False
         | Inr False \<Rightarrow> Inr True)))"

text \<open>\<^verbatim>\<open>getPossibleNumbers\<close>: the values \<open>1..maxNumber\<close> that pass \<open>isValidMove\<close>, ascending.\<close>

fun possible_loop ::
  "SudokuGrid \<Rightarrow> nat \<Rightarrow> nat \<Rightarrow> GridConfig \<Rightarrow> nat list \<Rightarrow> nat list \<Rightarrow> error + nat list" where
  "possible_loop grid row col gridConfig [] possible = Inr possible"
| "possible_loop grid row col gridConfig (num # nums) possible =
     (case isValidMove grid row col (Num num) gridConfig of
        Inl e \<Rightarrow> Inl e
      | Inr ok \<Rightarrow>
          possible_loop grid row col gridConfig nums (if ok then possible @ [num] else possible))"

definition getPossibleNumbers ::
  "SudokuGrid \<Rightarrow> nat \<Rightarrow> nat \<Rightarrow> GridConfig \<Rightarrow> error + nat list" where
  "getPossibleNumbers grid row col gridConfig =
     possible_loop grid row col gridConfig [1..<Suc (maxNumber gridConfig)] []"

text \<open>
  The two nested loops \<^verbatim>\<open>for row < n, for col < n\<close> visit the cells in row-major order;
  \<open>cells n\<close> is that sequence.
\<close>

definition cells :: "nat \<Rightarrow> CellPosition list" where
  "cells n = List.product [0..<n] [0..<n]"

text \<open>
  \<^verbatim>\<open>findBestEmptyCell\<close>: the sweep keeps the best cell so far and its candidate count, and
  returns at once on a cell with exactly one candidate.
\<close>

fun best_loop ::
  "SudokuGrid \<Rightarrow> GridConfig \<Rightarrow> CellPosition list \<Rightarrow> CellPosition option \<Rightarrow> nat
     \<Rightarrow> error + CellPosition option" where
  "best_loop grid gridConfig [] bestCell minPossibilities = Inr bestCell"
| "best_loop grid gridConfig ((row, col) # ps) bestCell minPossibilities =
     (case cell_at grid row col of
        Inl e \<Rightarrow> Inl e
      | Inr x \<Rightarrow>
          if x = Null then
            (case getPossibleNumbers grid row col gridConfig of
               Inl e \<Rightarrow> Inl e
             | Inr possible \<Rightarrow>
                 if length possible < minPossibilities then
                   (if length possible = 1 then Inr (Some (row, col))
                    else best_loop grid gridConfig ps (Some (row, col)) (length possible))
                 else best_loop grid gridConfig ps bestCell minPossibilities)
          else best_loop grid gridConfig ps bestCell minPossibilities)"

definition findBestEmptyCell :: "SudokuGrid \<Rightarrow> GridConfig \<Rightarrow> error + CellPosition option" where
  "findBestEmptyCell grid gridConfig =
     best_loop grid gridConfig (cells (size_cfg gridConfig)) None (maxNumber gridConfig + 1)"

text \<open>
  \<^verbatim>\<open>solveRecursive\<close> mutates the grid, so it returns the grid with its answer. The recursion
  of the source has no explicit bound; the model counts the depth down and returns \<open>None\<close>
  when it is used up. \<open>try_numbers\<close> is the loop over the candidates, \<open>rec\<close> the recursive
  call.
\<close>

fun try_numbers ::
  "(SudokuGrid \<Rightarrow> (error + bool \<times> SudokuGrid) option) \<Rightarrow> nat \<Rightarrow> nat \<Rightarrow> nat list
     \<Rightarrow> SudokuGrid \<Rightarrow> (error + bool \<times> SudokuGrid) option" where
  "try_numbers rec row col [] grid = Some (Inr (False, grid))"
| "try_numbers rec row col (num # nums) grid =
     (case set_cell grid row col (Num num) of
        Inl e \<Rightarrow> Some (Inl e)
      | Inr g1 \<Rightarrow>
          (case rec g1 of
             None \<Rightarrow> None
           | Some (Inl e) \<Rightarrow> Some (Inl e)
           | Some (Inr (True, g2)) \<Rightarrow> Some (Inr (True, g2))
           | Some (Inr (False, g2)) \<Rightarrow>
               (case set_cell g2 row col Null of
                  Inl e \<Rightarrow> Some (Inl e)
                | Inr g3 \<Rightarrow> try_numbers rec row col nums g3)))"

fun solveRecursive ::
  "nat \<Rightarrow> SudokuGrid \<Rightarrow> GridConfig \<Rightarrow> (error + bool \<times> SudokuGrid) option" where
  "solveRecursive 0 grid gridConfig = None"
| "solveRecursive (Suc fuel) grid gridConfig =
     (case findBestEmptyCell grid gridConfig of
        Inl e \<Rightarrow> Some (Inl e)
      | Inr None \<Rightarrow> Some (Inr (True, grid))
      | Inr (Some (row, col)) \<Rightarrow>
          (case getPossibleNumbers grid row col gridConfig of
             Inl e \<Rightarrow> Some (Inl e)
           | Inr possibleNumbers \<Rightarrow>
               try_numbers (\<lambda>g. solveRecursive fuel g gridConfig) row col possibleNumbers grid))"

text \<open>\<^verbatim>\<open>solve\<close> clears a cache that nothing reads or fills, then calls \<open>solveRecursive\<close>.\<close>

definition solve ::
  "nat \<Rightarrow> SudokuGrid \<Rightarrow> GridConfig \<Rightarrow> (error + bool \<times> SudokuGrid) option" where
  "solve fuel grid gridConfig = solveRecursive fuel grid gridConfig"

text \<open>
  \<^verbatim>\<open>validateGrid\<close>: the body of the double loop, on the state (grid, conflicts). A cell that
  is not \<^verbatim>\<open>null\<close> is cleared, checked with its own value and restored.
\<close>

definition validate_cell ::
  "GridConfig \<Rightarrow> CellPosition \<Rightarrow> SudokuGrid \<times> CellPosition list
     \<Rightarrow> error + SudokuGrid \<times> CellPosition list" where
  "validate_cell gridConfig p s =
     (case (p, s) of ((row, col), (grid, confl)) \<Rightarrow>
       (case cell_at grid row col of
          Inl e \<Rightarrow> Inl e
        | Inr num \<Rightarrow>
            if num \<noteq> Null then
              (case set_cell grid row col Null of
                 Inl e \<Rightarrow> Inl e
               | Inr g1 \<Rightarrow>
                   (case isValidMove g1 row col num gridConfig of
                      Inl e \<Rightarrow> Inl e
                    | Inr ok \<Rightarrow>
                        (case set_cell g1 row col num of
                           Inl e \<Rightarrow> Inl e
                         | Inr g2 \<Rightarrow> Inr (g2, if ok then confl else confl @ [(row, col)]))))
            else Inr (grid, confl)))"

definition validateGrid ::
  "SudokuGrid \<Rightarrow> GridConfig \<Rightarrow> error + SudokuGrid \<times> ValidationResult" where
  "validateGrid grid gridConfig =
     (case for_each (validate_cell gridConfig) (cells (size_cfg gridConfig)) (grid, []) of
        Inl e \<Rightarrow> Inl e
      | Inr (g, confl) \<Rightarrow> Inr (g, \<lparr>isValid = (length confl = 0), conflicts = confl\<rparr>))"

text \<open>\<^verbatim>\<open>isComplete\<close>: no cell is \<^verbatim>\<open>null\<close>, and \<open>validateGrid\<close> finds the grid valid.\<close>

definition isComplete :: "SudokuGrid \<Rightarrow> GridConfig \<Rightarrow> error + SudokuGrid \<times> bool" where
  "isComplete grid gridConfig =
     (case for_any (\<lambda>(row, col). holds grid row col Null) (cells (size_cfg gridConfig)) of
        Inl e \<Rightarrow> Inl e
      | Inr True \<Rightarrow> Inr (grid, False)
      | Inr False \<Rightarrow>
          (case validateGrid grid gridConfig of
             Inl e \<Rightarrow> Inl e
           | Inr (g, res) \<Rightarrow> Inr (g, isValid res)))"

text \<open>
  \<^verbatim>\<open>getHint\<close> collects the empty cells in row-major order and sorts them with the comparator
  \<^verbatim>\<open>(a, b) => |candidates a| - |candidates b|\<close>. \<^verbatim>\<open>Array.prototype.sort\<close> is stable, so with
  this comparator it is the stable sort by candidate count, \<open>sort_key\<close>. The comparator runs
  only when there are at least two elements, and then on every element, so an exception in
  any candidate count is an exception of the sort. The parameter \<open>solution\<close> is not read.
\<close>

fun count_all ::
  "SudokuGrid \<Rightarrow> GridConfig \<Rightarrow> CellPosition list \<Rightarrow> error + (nat \<times> CellPosition) list" where
  "count_all grid gridConfig [] = Inr []"
| "count_all grid gridConfig ((row, col) # ps) =
     (case getPossibleNumbers grid row col gridConfig of
        Inl e \<Rightarrow> Inl e
      | Inr possible \<Rightarrow>
          (case count_all grid gridConfig ps of
             Inl e \<Rightarrow> Inl e
           | Inr ks \<Rightarrow> Inr ((length possible, (row, col)) # ks)))"

definition collect_empty ::
  "SudokuGrid \<Rightarrow> CellPosition \<Rightarrow> CellPosition list \<Rightarrow> error + CellPosition list" where
  "collect_empty grid p emptyCells =
     (case cell_at grid (fst p) (snd p) of
        Inl e \<Rightarrow> Inl e
      | Inr x \<Rightarrow> Inr (if x = Null then emptyCells @ [p] else emptyCells))"

definition getHint ::
  "SudokuGrid \<Rightarrow> SudokuGrid \<Rightarrow> GridConfig \<Rightarrow> error + CellPosition option" where
  "getHint grid solution gridConfig =
     (case for_each (collect_empty grid) (cells (size_cfg gridConfig)) [] of
        Inl e \<Rightarrow> Inl e
      | Inr emptyCells \<Rightarrow>
          if length emptyCells = 0 then Inr None
          else if length emptyCells = 1 then Inr (Some (emptyCells ! 0))
          else
            (case count_all grid gridConfig emptyCells of
               Inl e \<Rightarrow> Inl e
             | Inr ks \<Rightarrow> Inr (Some (snd (sort_key fst ks ! 0)))))"

section \<open>Random generation\<close>

text \<open>
  \<^verbatim>\<open>Math.random\<close> is a supply of draws: \<open>rnd 0\<close> is the next one, and
  \<^verbatim>\<open>Math.floor(Math.random() * (i + 1))\<close> is \<open>rnd 0 mod (i + 1)\<close>, which can be any index in
  \<open>0..i\<close>. \<^verbatim>\<open>shuffleArray\<close> is the Fisher-Yates loop for \<open>i\<close> from \<open>length - 1\<close> down to 1.
\<close>

type_synonym rng = "nat \<Rightarrow> nat"

fun shuffle_loop :: "nat list \<Rightarrow> 'a list \<Rightarrow> rng \<Rightarrow> 'a list \<times> rng" where
  "shuffle_loop [] shuffled rnd = (shuffled, rnd)"
| "shuffle_loop (i # is) shuffled rnd =
     (let j = rnd 0 mod (i + 1)
      in shuffle_loop is (shuffled[i := shuffled ! j, j := shuffled ! i]) (\<lambda>k. rnd (Suc k)))"

definition shuffleArray :: "'a list \<Rightarrow> rng \<Rightarrow> 'a list \<times> rng" where
  "shuffleArray array rnd = shuffle_loop (rev [1..<length array]) array rnd"

text \<open>\<^verbatim>\<open>findFirstEmptyCell\<close> sweeps rows 0..8 and columns 0..8, whatever the grid's size.\<close>

fun first_empty_loop :: "SudokuGrid \<Rightarrow> CellPosition list \<Rightarrow> error + CellPosition option" where
  "first_empty_loop grid [] = Inr None"
| "first_empty_loop grid ((row, col) # ps) =
     (case cell_at grid row col of
        Inl e \<Rightarrow> Inl e
      | Inr x \<Rightarrow> if x = Null then Inr (Some (row, col)) else first_empty_loop grid ps)"

definition findFirstEmptyCell :: "SudokuGrid \<Rightarrow> error + CellPosition option" where
  "findFirstEmptyCell grid = first_empty_loop grid (cells 9)"

text \<open>
  \<^verbatim>\<open>fillGridRandomly\<close>, with the depth counted down as in \<open>solveRecursive\<close>; \<open>fill_numbers\<close>
  is its loop over the shuffled values.
\<close>

fun fill_numbers ::
  "(SudokuGrid \<Rightarrow> rng \<Rightarrow> (error + bool \<times> SudokuGrid \<times> rng) option) \<Rightarrow> GridConfig
     \<Rightarrow> nat \<Rightarrow> nat \<Rightarrow> nat list \<Rightarrow> SudokuGrid \<Rightarrow> rng
     \<Rightarrow> (error + bool \<times> SudokuGrid \<times> rng) option" where
  "fill_numbers rec gridConfig row col [] grid rnd = Some (Inr (False, grid, rnd))"
| "fill_numbers rec gridConfig row col (num # nums) grid rnd =
     (case isValidMove grid row col (Num num) gridConfig of
        Inl e \<Rightarrow> Some (Inl e)
      | Inr False \<Rightarrow> fill_numbers rec gridConfig row col nums grid rnd
      | Inr True \<Rightarrow>
          (case set_cell grid row col (Num num) of
             Inl e \<Rightarrow> Some (Inl e)
           | Inr g1 \<Rightarrow>
               (case rec g1 rnd of
                  None \<Rightarrow> None
                | Some (Inl e) \<Rightarrow> Some (Inl e)
                | Some (Inr (True, g2, rnd2)) \<Rightarrow> Some (Inr (True, g2, rnd2))
                | Some (Inr (False, g2, rnd2)) \<Rightarrow>
                    (case set_cell g2 row col Null of
                       Inl e \<Rightarrow> Some (Inl e)
                     | Inr g3 \<Rightarrow> fill_numbers rec gridConfig row col nums g3 rnd2))))"

fun fillGridRandomly ::
  "nat \<Rightarrow> SudokuGrid \<Rightarrow> GridConfig \<Rightarrow> rng \<Rightarrow> (error + bool \<times> SudokuGrid \<times> rng) option" where
  "fillGridRandomly 0 grid gridConfig rnd = None"
| "fillGridRandomly (Suc fuel) grid gridConfig rnd =
     (case findFirstEmptyCell grid of
        Inl e \<Rightarrow> Some (Inl e)
      | Inr None \<Rightarrow> Some (Inr (True, grid, rnd))
      | Inr (Some (row, col)) \<Rightarrow>
          (case shuffleArray [1..<Suc (maxNumber gridConfig)] rnd of
             (numbers, rnd1) \<Rightarrow>
               fill_numbers (\<lambda>g r. fillGridRandomly fuel g gridConfig r) gridConfig
                 row col numbers grid rnd1))"

text \<open>\<^verbatim>\<open>generateComplete\<close> returns the grid whatever \<open>fillGridRandomly\<close> answered.\<close>

definition generateComplete :: "nat \<Rightarrow> GridConfig \<Rightarrow> rng \<Rightarrow> (error + SudokuGrid) option" where
  "generateComplete fuel gridConfig rnd =
     (case fillGridRandomly fuel
             (replicate (size_cfg gridConfig) (replicate (size_cfg gridConfig) Null))
             gridConfig rnd of
        None \<Rightarrow> None
      | Some (Inl e) \<Rightarrow> Some (Inl e)
      | Some (Inr (filled, grid, rnd')) \<Rightarrow> Some (Inr grid))"

section \<open>The predefined puzzles\<close>

definition getGridConfig :: "Difficulty \<Rightarrow> GridConfig" where
  "getGridConfig difficulty =
     (case difficulty of
        easy \<Rightarrow> \<lparr>size_cfg = 4, subGridRows = 2, subGridCols = 2, maxNumber = 4\<rparr>
      | medium \<Rightarrow> \<lparr>size_cfg = 6, subGridRows = 2, subGridCols = 3, maxNumber = 6\<rparr>
      | hard \<Rightarrow> \<lparr>size_cfg = 16, subGridRows = 4, subGridCols = 4, maxNumber = 16\<rparr>)"

text \<open>A row of the literals: 0 stands for \<^verbatim>\<open>null\<close>.\<close>

definition lit :: "nat list \<Rightarrow> jsval list" where
  "lit xs = map (\<lambda>n. if n = 0 then Null else Num n) xs"

definition create4x4Puzzle :: "SudokuGrid \<times> SudokuGrid" where
  "create4x4Puzzle =
     (map lit [[1, 0, 0, 4],
               [0, 4, 1, 0],
               [2, 0, 0, 3],
               [0, 3, 2, 0]],
      map lit [[1, 2, 3, 4],
               [3, 4, 1, 2],
               [2, 1, 4, 3],
               [4, 3, 2, 1]])"

definition create6x6Puzzle :: "SudokuGrid \<times> SudokuGrid" where
  "create6x6Puzzle =
     (map lit [[1, 0, 0, 4, 0, 6],
               [0, 5, 0, 0, 2, 0],
               [2, 0, 1, 0, 0, 4],
               [0, 6, 0, 2, 0, 0],
               [0, 1, 0, 0, 4, 0],
               [6, 0, 5, 0, 0, 2]],
      map lit [[1, 2, 3, 4, 5, 6],
               [4, 5, 6, 1, 2, 3],
               [2, 3, 1, 5, 6, 4],
               [5, 6, 4, 2, 3, 1],
               [3, 1, 2, 6, 4, 5],
               [6, 4, 5, 3, 1, 2]])"

definition create16x16Puzzle :: "SudokuGrid \<times> SudokuGrid" where
  "create16x16Puzzle =
     (let solution =
            map (\<lambda>row. map (\<lambda>col. Num ((row * 4 + row div 4 + col) mod 16 + 1)) [0..<16])
              [0..<16];
          puzzle =
            map (\<lambda>rowIndex.
                   map (\<lambda>colIndex. if (rowIndex + colIndex) mod 3 = 0 then Null
                                    else solution ! rowIndex ! colIndex) [0..<16])
              [0..<16]
      in (puzzle, solution))"

definition createPredefinedPuzzle :: "GridConfig \<Rightarrow> SudokuGrid \<times> SudokuGrid" where
  "createPredefinedPuzzle gridConfig =
     (if size_cfg gridConfig = 4 then create4x4Puzzle
      else if size_cfg gridConfig = 6 then create6x6Puzzle
      else if size_cfg gridConfig = 16 then create16x16Puzzle
      else create6x6Puzzle)"

text \<open>\<^verbatim>\<open>generatePuzzle\<close> returns copies of the two grids, and the configuration.\<close>

definition generatePuzzle :: "Difficulty \<Rightarrow> SudokuGrid \<times> SudokuGrid \<times> GridConfig" where
  "generatePuzzle difficulty =
     (let gridConfig = getGridConfig difficulty
      in case createPredefinedPuzzle gridConfig of
           (puzzle, solution) \<Rightarrow> (map (\<lambda>row. row) puzzle, map (\<lambda>row. row) solution, gridConfig))"

section \<open>Well-formed inputs\<close>

text \<open>
  A configuration is well formed when the sub-box has exactly \<open>size\<close> cells and the values
  are \<open>1..size\<close>; a grid is well formed for it when it is \<open>size\<close> rows of \<open>size\<close> cells.
\<close>

definition wf_config :: "GridConfig \<Rightarrow> bool" where
  "wf_config gridConfig \<longleftrightarrow>
     0 < size_cfg gridConfig \<and>
     subGridRows gridConfig * subGridCols gridConfig = size_cfg gridConfig \<and>
     maxNumber gridConfig = size_cfg gridConfig"

definition wf_grid :: "GridConfig \<Rightarrow> SudokuGrid \<Rightarrow> bool" where
  "wf_grid gridConfig grid \<longleftrightarrow>
     length grid = size_cfg gridConfig \<and> list_all (\<lambda>r. length r = size_cfg gridConfig) grid"

text \<open>The grid with one cell replaced.\<close>

definition put :: "SudokuGrid \<Rightarrow> nat \<Rightarrow> nat \<Rightarrow> jsval \<Rightarrow> SudokuGrid" where
  "put grid r c v = grid[r := (grid ! r)[c := v]]"

text \<open>
  \<open>clash grid row col num cfg\<close>: some cell other than \<open>(row, col)\<close> in its row, in its
  column or in its sub-box holds \<open>num\<close>.
\<close>

definition clash :: "SudokuGrid \<Rightarrow> nat \<Rightarrow> nat \<Rightarrow> jsval \<Rightarrow> GridConfig \<Rightarrow> bool" where
  "clash grid row col num gridConfig \<longleftrightarrow>
     (\<exists>c < size_cfg gridConfig. c \<noteq> col \<and> grid ! row ! c = num) \<or>
     (\<exists>r < size_cfg gridConfig. r \<noteq> row \<and> grid ! r ! col = num) \<or>
     (\<exists>r c. row div subGridRows gridConfig * subGridRows gridConfig \<le> r \<and>
            r < row div subGridRows gridConfig * subGridRows gridConfig + subGridRows gridConfig \<and>
            col div subGridCols gridConfig * subGridCols gridConfig \<le> c \<and>
            c < col div subGridCols gridConfig * subGridCols gridConfig + subGridCols gridConfig \<and>
            (r \<noteq> row \<or> c \<noteq> col) \<and> grid ! r ! c = num)"

section \<open>Example grids\<close>

text \<open>The grid of the solver's test for an unsolvable puzzle: two 1s in row 0, all else empty.\<close>

definition two_ones :: SudokuGrid where
  "two_ones = map lit [[1, 1, 0, 0],
                       [0, 0, 0, 0],
                       [0, 0, 0, 0],
                       [0, 0, 0, 0]]"

text \<open>The full grid of the test for a complete but invalid grid: every cell holds 1.\<close>

definition all_ones :: SudokuGrid where
  "all_ones = replicate 4 (replicate 4 (Num 1))"

text \<open>
  The 4x4 solution with its first cell changed from 1 to 2 (a duplicate in row 0 and in
  column 0) and its last cell cleared.
\<close>

definition dup_one_empty :: SudokuGrid where
  "dup_one_empty = map lit [[2, 2, 3, 4],
                            [3, 4, 1, 2],
                            [2, 1, 4, 3],
                            [4, 3, 2, 0]]"

section \<open>Conflicts\<close>

text \<open>
  A cell is in conflict when it is filled (not \<^verbatim>\<open>null\<close>) and its value is held by another
  cell of its row, column or sub-box.
\<close>

definition in_conflict :: "SudokuGrid \<Rightarrow> GridConfig \<Rightarrow> CellPosition \<Rightarrow> bool" where
  "in_conflict grid gridConfig p \<longleftrightarrow>
     grid ! fst p ! snd p \<noteq> Null \<and> clash grid (fst p) (snd p) (grid ! fst p ! snd p) gridConfig"

text \<open>The number of empty cells: it bounds the depth of the solver's recursion.\<close>

definition emptyCount :: "SudokuGrid \<Rightarrow> GridConfig \<Rightarrow> nat" where
  "emptyCount grid gridConfig =
     length (filter (\<lambda>p. grid ! fst p ! snd p = Null) (cells (size_cfg gridConfig)))"

text \<open>
  The legal candidates of a cell, in the words of the specification: the values \<open>v\<close> in
  \<open>1..maxNumber\<close> for which \<open>isValidMove\<close> at the cell with \<open>v\<close> is true.
\<close>

definition legal_candidates :: "SudokuGrid \<Rightarrow> nat \<Rightarrow> nat \<Rightarrow> GridConfig \<Rightarrow> nat list" where
  "legal_candidates grid row col gridConfig =
     filter (\<lambda>v. isValidMove grid row col (Num v) gridConfig = Inr True)
       [1..<Suc (maxNumber gridConfig)]"

text \<open>A filled cell of a grid of the given geometry: a number in \<open>1..size\<close>.\<close>

definition in_range :: "GridConfig \<Rightarrow> jsval \<Rightarrow> bool" where
  "in_range gridConfig x =
     (case x of Num v \<Rightarrow> 1 \<le> v \<and> v \<le> size_cfg gridConfig | _ \<Rightarrow> False)"

text \<open>
  A 16x16 grid with values only in its first nine rows and columns: what the random fill
  leaves behind on the 16x16 configuration when every random draw is 0.
\<close>

definition partial16 :: SudokuGrid where
  "partial16 = map lit
       [[2, 3, 4, 5, 6, 7, 8, 9, 10, 0, 0, 0, 0, 0, 0, 0],
        [6, 7, 8, 9, 2, 3, 4, 5, 11, 0, 0, 0, 0, 0, 0, 0],
        [10, 11, 12, 13, 14, 15, 16, 1, 2, 0, 0, 0, 0, 0, 0, 0],
        [14, 15, 16, 1, 10, 11, 12, 13, 3, 0, 0, 0, 0, 0, 0, 0],
        [3, 2, 5, 4, 7, 6, 9, 8, 12, 0, 0, 0, 0, 0, 0, 0],
        [7, 6, 9, 8, 3, 2, 5, 4, 13, 0, 0, 0, 0, 0, 0, 0],
        [11, 10, 13, 12, 15, 14, 1, 16, 4, 0, 0, 0, 0, 0, 0, 0],
        [15, 14, 1, 16, 11, 10, 13, 12, 5, 0, 0, 0, 0, 0, 0, 0],
        [4, 5, 2, 3, 8, 9, 6, 7, 14, 0, 0, 0, 0, 0, 0, 0],
        [0, 0, 0, 0, 0, 0, 0, 0, 0, 0, 0, 0, 0, 0, 0, 0],
        [0, 0, 0, 0, 0, 0, 0, 0, 0, 0, 0, 0, 0, 0, 0, 0],
        [0, 0, 0, 0, 0, 0, 0, 0, 0, 0, 0, 0, 0, 0, 0, 0],
        [0, 0, 0, 0, 0, 0, 0, 0, 0, 0, 0, 0, 0, 0, 0, 0],
        [0, 0, 0, 0, 0, 0, 0, 0, 0, 0, 0, 0, 0, 0, 0, 0],
        [0, 0, 0, 0, 0, 0, 0, 0, 0, 0, 0, 0, 0, 0, 0, 0],
        [0, 0, 0, 0, 0, 0, 0, 0, 0, 0, 0, 0, 0, 0, 0, 0]]"

section \<open>Reads, writes and loops on well-formed grids\<close>

lemma for_any_pure:
  "(\<And>x. x \<in> set xs \<Longrightarrow> body x = Inr (P x)) \<Longrightarrow> for_any body xs = Inr (\<exists>x\<in>set xs. P x)"
  by (induction xs) (auto split: bool.splits)

lemma wf_grid_row: "wf_grid cfg g \<Longrightarrow> r < size_cfg cfg \<Longrightarrow> length (g ! r) = size_cfg cfg"
  by (simp add: wf_grid_def list_all_length)

lemma cell_at_wf:
  "wf_grid cfg g \<Longrightarrow> r < size_cfg cfg \<Longrightarrow> c < size_cfg cfg \<Longrightarrow> cell_at g r c = Inr (g ! r ! c)"
  by (simp add: cell_at_def wf_grid_def list_all_length)

lemma holds_wf:
  "wf_grid cfg g \<Longrightarrow> r < size_cfg cfg \<Longrightarrow> c < size_cfg cfg \<Longrightarrow> holds g r c v = Inr (g ! r ! c = v)"
  by (simp add: holds_def cell_at_wf)

lemma set_cell_wf:
  "wf_grid cfg g \<Longrightarrow> r < size_cfg cfg \<Longrightarrow> c < size_cfg cfg \<Longrightarrow> set_cell g r c v = Inr (put g r c v)"
  by (simp add: set_cell_def put_def wf_grid_def list_all_length)

lemma wf_grid_put: "wf_grid cfg g \<Longrightarrow> wf_grid cfg (put g r c v)"
  unfolding wf_grid_def put_def list_all_length
  by (metis length_list_update nth_list_update_eq nth_list_update_neq)

lemma put_other: "r' \<noteq> r \<or> c' \<noteq> c \<Longrightarrow> put g r c v ! r' ! c' = g ! r' ! c'"
proof (cases "r' = r")
  case False
  then show ?thesis by (simp add: put_def)
next
  case True
  assume "r' \<noteq> r \<or> c' \<noteq> c"
  with True have c: "c' \<noteq> c" by simp
  show ?thesis
  proof (cases "r < length g")
    case True
    with \<open>r' = r\<close> c show ?thesis by (simp add: put_def)
  next
    case False
    then show ?thesis by (simp add: put_def list_update_beyond)
  qed
qed

lemma put_same:
  "wf_grid cfg g \<Longrightarrow> r < size_cfg cfg \<Longrightarrow> c < size_cfg cfg \<Longrightarrow> put g r c v ! r ! c = v"
  by (simp add: put_def wf_grid_def list_all_length)

lemma put_put: "put (put g r c v) r c w = put g r c w"
  by (cases "r < length g") (simp_all add: put_def list_update_beyond)

lemma put_id: "put g r c (g ! r ! c) = g"
  by (simp add: put_def)

lemma mem_cells: "(r, c) \<in> set (cells n) \<longleftrightarrow> r < n \<and> c < n"
  by (auto simp: cells_def)

lemma box_row_bound:
  assumes "wf_config cfg" "row < size_cfg cfg"
  shows "row div subGridRows cfg * subGridRows cfg + subGridRows cfg \<le> size_cfg cfg"
proof -
  let ?R = "subGridRows cfg" and ?C = "subGridCols cfg"
  from assms have sz: "?R * ?C = size_cfg cfg" and pos: "0 < ?R"
    by (auto simp: wf_config_def intro: Nat.gr0I)
  from assms sz have "row < ?R * ?C" by simp
  then have "row div ?R < ?C" using pos by (simp add: less_mult_imp_div_less mult.commute)
  then have "Suc (row div ?R) \<le> ?C" by simp
  then have "Suc (row div ?R) * ?R \<le> ?C * ?R" by (rule mult_le_mono1)
  then show ?thesis using sz by (simp add: mult.commute)
qed

lemma box_col_bound:
  assumes "wf_config cfg" "col < size_cfg cfg"
  shows "col div subGridCols cfg * subGridCols cfg + subGridCols cfg \<le> size_cfg cfg"
proof -
  let ?R = "subGridRows cfg" and ?C = "subGridCols cfg"
  from assms have sz: "?R * ?C = size_cfg cfg" and pos: "0 < ?C"
    by (auto simp: wf_config_def intro: Nat.gr0I)
  from assms sz have "col < ?C * ?R" by (simp add: mult.commute)
  then have "col div ?C < ?R" using pos by (simp add: less_mult_imp_div_less mult.commute)
  then have "Suc (col div ?C) \<le> ?R" by simp
  then have "Suc (col div ?C) * ?C \<le> ?R * ?C" by (rule mult_le_mono1)
  then show ?thesis using sz by simp
qed

section \<open>What \<open>isValidMove\<close> computes\<close>

lemma isValidMove_pure:
  assumes cfg: "wf_config cfg" and g: "wf_grid cfg g"
    and row: "row < size_cfg cfg" and col: "col < size_cfg cfg"
  shows "isValidMove g row col num cfg = Inr (\<not> clash g row col num cfg)"
proof -
  let ?n = "size_cfg cfg"
  let ?br = "row div subGridRows cfg * subGridRows cfg"
  let ?bc = "col div subGridCols cfg * subGridCols cfg"
  have rows: "for_any (\<lambda>c. if c \<noteq> col then holds g row c num else Inr False) [0..<?n]
      = Inr (\<exists>c\<in>set [0..<?n]. c \<noteq> col \<and> g ! row ! c = num)"
    by (rule for_any_pure) (simp add: holds_wf [OF g row])
  have cols: "for_any (\<lambda>r. if r \<noteq> row then holds g r col num else Inr False) [0..<?n]
      = Inr (\<exists>r\<in>set [0..<?n]. r \<noteq> row \<and> g ! r ! col = num)"
    by (rule for_any_pure) (simp add: holds_wf [OF g _ col])
  have inner: "for_any (\<lambda>c. if r \<noteq> row \<or> c \<noteq> col then holds g r c num else Inr False)
                  [?bc..<?bc + subGridCols cfg]
      = Inr (\<exists>c\<in>set [?bc..<?bc + subGridCols cfg]. (r \<noteq> row \<or> c \<noteq> col) \<and> g ! r ! c = num)"
    if "r \<in> set [?br..<?br + subGridRows cfg]" for r
  proof (rule for_any_pure)
    fix c assume "c \<in> set [?bc..<?bc + subGridCols cfg]"
    then have "c < ?n" using box_col_bound [OF cfg col] by simp
    moreover have "r < ?n" using that box_row_bound [OF cfg row] by simp
    ultimately show "(if r \<noteq> row \<or> c \<noteq> col then holds g r c num else Inr False)
        = Inr ((r \<noteq> row \<or> c \<noteq> col) \<and> g ! r ! c = num)"
      by (simp add: holds_wf [OF g])
  qed
  have box: "for_any (\<lambda>r.
                for_any (\<lambda>c. if r \<noteq> row \<or> c \<noteq> col then holds g r c num else Inr False)
                  [?bc..<?bc + subGridCols cfg])
              [?br..<?br + subGridRows cfg]
      = Inr (\<exists>r\<in>set [?br..<?br + subGridRows cfg].
               \<exists>c\<in>set [?bc..<?bc + subGridCols cfg]. (r \<noteq> row \<or> c \<noteq> col) \<and> g ! r ! c = num)"
    by (rule for_any_pure) (rule inner)
  show ?thesis
    unfolding isValidMove_def Let_def rows cols box clash_def
    by (simp add: Bex_def split: bool.splits) blast
qed

lemma clash_put_self: "clash (put g row col x) row col num cfg = clash g row col num cfg"
  unfolding clash_def by (simp add: put_other cong: conj_cong)

text \<open>
  C4. On a well-formed grid and configuration, for a cell \<open>(row, col)\<close> in range,
  \<open>isValidMove\<close> returns normally, and returns true exactly when no other cell of the same
  row, no other cell of the same column and no other cell of the sub-box that starts at
  \<open>(row div R * R, col div C * C)\<close> holds the value. The function returns a boolean only:
  it has no write to the grid.
\<close>

theorem isValidMove_iff:
  assumes "wf_config cfg" and "wf_grid cfg grid"
    and "row < size_cfg cfg" and "col < size_cfg cfg"
  shows "isValidMove grid row col (Num v) cfg =
     Inr (\<not> ((\<exists>c < size_cfg cfg. c \<noteq> col \<and> grid ! row ! c = Num v) \<or>
              (\<exists>r < size_cfg cfg. r \<noteq> row \<and> grid ! r ! col = Num v) \<or>
              (\<exists>r c. row div subGridRows cfg * subGridRows cfg \<le> r \<and>
                     r < row div subGridRows cfg * subGridRows cfg + subGridRows cfg \<and>
                     col div subGridCols cfg * subGridCols cfg \<le> c \<and>
                     c < col div subGridCols cfg * subGridCols cfg + subGridCols cfg \<and>
                     (r \<noteq> row \<or> c \<noteq> col) \<and> grid ! r ! c = Num v)))"
  using isValidMove_pure [OF assms, of "Num v"] unfolding clash_def .

theorem isValidMove_iff_witness:
  "wf_config (getGridConfig easy) \<and> wf_grid (getGridConfig easy) two_ones \<and>
   (0::nat) < size_cfg (getGridConfig easy) \<and> (2::nat) < size_cfg (getGridConfig easy) \<and>
   isValidMove two_ones 0 2 (Num 1) (getGridConfig easy) =
     Inr (\<not> ((\<exists>c < size_cfg (getGridConfig easy). c \<noteq> 2 \<and> two_ones ! 0 ! c = Num 1) \<or>
              (\<exists>r < size_cfg (getGridConfig easy). r \<noteq> 0 \<and> two_ones ! r ! 2 = Num 1) \<or>
              (\<exists>r c. 0 div subGridRows (getGridConfig easy) * subGridRows (getGridConfig easy) \<le> r \<and>
                     r < 0 div subGridRows (getGridConfig easy) * subGridRows (getGridConfig easy)
                           + subGridRows (getGridConfig easy) \<and>
                     2 div subGridCols (getGridConfig easy) * subGridCols (getGridConfig easy) \<le> c \<and>
                     c < 2 div subGridCols (getGridConfig easy) * subGridCols (getGridConfig easy)
                           + subGridCols (getGridConfig easy) \<and>
                     (r \<noteq> 0 \<or> c \<noteq> 2) \<and> two_ones ! r ! c = Num 1)))"
proof -
  have c: "wf_config (getGridConfig easy)"
    by (simp add: wf_config_def getGridConfig_def)
  have g: "wf_grid (getGridConfig easy) two_ones"
    by (simp add: wf_grid_def getGridConfig_def two_ones_def lit_def)
  have r: "(0::nat) < size_cfg (getGridConfig easy)" and k: "(2::nat) < size_cfg (getGridConfig easy)"
    by (simp_all add: getGridConfig_def)
  show ?thesis using c g r k isValidMove_iff [OF c g r k, of 1] by blast
qed

text \<open>
  C7, as stated, fails: the claim puts no condition on the rest of the grid, and in the
  grid with two 1s in row 0 the cell \<open>(0, 0)\<close> holds 1, yet with that cell cleared
  \<open>isValidMove\<close> at \<open>(0, 0)\<close> with 1 is false, because \<open>(0, 1)\<close> holds 1.
\<close>

theorem replace_self_counterexample:
  "cell_at two_ones 0 0 = Inr (Num 1) \<and>
   set_cell two_ones 0 0 Null = Inr (map lit [[0, 1, 0, 0], [0, 0, 0, 0], [0, 0, 0, 0], [0, 0, 0, 0]]) \<and>
   isValidMove (map lit [[0, 1, 0, 0], [0, 0, 0, 0], [0, 0, 0, 0], [0, 0, 0, 0]]) 0 0 (Num 1)
     (getGridConfig easy) = Inr False"
  by (simp add: cell_at_def set_cell_def two_ones_def lit_def isValidMove_def holds_def
      getGridConfig_def upt_rec)

text \<open>
  C7, amended: on a well-formed grid, when the cell \<open>(row, col)\<close> holds \<open>v\<close> and no other
  cell of its row, column or sub-box holds \<open>v\<close> (the value is legally placed), clearing the
  cell succeeds and \<open>isValidMove\<close> on the cleared grid at \<open>(row, col)\<close> with \<open>v\<close> is true.
\<close>

theorem replace_self_legal:
  assumes "wf_config cfg" and "wf_grid cfg grid"
    and "row < size_cfg cfg" and "col < size_cfg cfg"
    and "cell_at grid row col = Inr (Num v)"
    and "\<not> clash grid row col (Num v) cfg"
  shows "\<exists>g'. set_cell grid row col Null = Inr g' \<and>
              isValidMove g' row col (Num v) cfg = Inr True"
proof -
  have "set_cell grid row col Null = Inr (put grid row col Null)"
    using assms by (simp add: set_cell_wf)
  moreover have "isValidMove (put grid row col Null) row col (Num v) cfg = Inr True"
    using assms isValidMove_pure [OF assms(1) wf_grid_put [OF assms(2)] assms(3,4)]
    by (simp add: clash_put_self)
  ultimately show ?thesis by blast
qed

theorem replace_self_legal_witness:
  "wf_config (getGridConfig easy) \<and> wf_grid (getGridConfig easy) (snd create4x4Puzzle) \<and>
   (0::nat) < size_cfg (getGridConfig easy) \<and> (1::nat) < size_cfg (getGridConfig easy) \<and>
   cell_at (snd create4x4Puzzle) 0 1 = Inr (Num 2) \<and>
   \<not> clash (snd create4x4Puzzle) 0 1 (Num 2) (getGridConfig easy) \<and>
   (\<exists>g'. set_cell (snd create4x4Puzzle) 0 1 Null = Inr g' \<and>
         isValidMove g' 0 1 (Num 2) (getGridConfig easy) = Inr True)"
proof -
  have c: "wf_config (getGridConfig easy)"
    by (simp add: wf_config_def getGridConfig_def)
  have g: "wf_grid (getGridConfig easy) (snd create4x4Puzzle)"
    by (simp add: wf_grid_def getGridConfig_def create4x4Puzzle_def lit_def)
  have r: "(0::nat) < size_cfg (getGridConfig easy)" and k: "(1::nat) < size_cfg (getGridConfig easy)"
    by (simp_all add: getGridConfig_def)
  have v: "cell_at (snd create4x4Puzzle) 0 1 = Inr (Num 2)"
    by (simp add: cell_at_def create4x4Puzzle_def lit_def)
  have "isValidMove (snd create4x4Puzzle) 0 1 (Num 2) (getGridConfig easy) = Inr True"
    by (simp add: isValidMove_def holds_def cell_at_def create4x4Puzzle_def lit_def
        getGridConfig_def upt_rec)
  then have n: "\<not> clash (snd create4x4Puzzle) 0 1 (Num 2) (getGridConfig easy)"
    using isValidMove_pure [OF c g r k, of "Num 2"] by simp
  show ?thesis using c g r k v n replace_self_legal [OF c g r k v n] by blast
qed

section \<open>What \<open>validateGrid\<close> computes\<close>

lemma validate_cell_pure:
  assumes cfg: "wf_config cfg" and g: "wf_grid cfg g"
    and r: "r < size_cfg cfg" and c: "c < size_cfg cfg"
  shows "validate_cell cfg (r, c) (g, cs) =
           Inr (g, if in_conflict g cfg (r, c) then cs @ [(r, c)] else cs)"
proof (cases "g ! r ! c = Null")
  case True
  then show ?thesis
    by (simp add: validate_cell_def cell_at_wf [OF g r c] in_conflict_def)
next
  case False
  let ?g1 = "put g r c Null"
  have g1: "wf_grid cfg ?g1" by (rule wf_grid_put [OF g])
  have v: "isValidMove ?g1 r c (g ! r ! c) cfg = Inr (\<not> clash g r c (g ! r ! c) cfg)"
    by (simp add: isValidMove_pure [OF cfg g1 r c] clash_put_self)
  have restore: "set_cell ?g1 r c (g ! r ! c) = Inr g"
    by (simp add: set_cell_wf [OF g1 r c] put_put put_id)
  show ?thesis
    using False
    by (simp add: validate_cell_def cell_at_wf [OF g r c] set_cell_wf [OF g r c] v restore
        in_conflict_def)
qed

lemma for_each_validate:
  assumes cfg: "wf_config cfg" and g: "wf_grid cfg g"
  shows "set ps \<subseteq> set (cells (size_cfg cfg)) \<Longrightarrow>
         for_each (validate_cell cfg) ps (g, cs) = Inr (g, cs @ filter (in_conflict g cfg) ps)"
proof (induction ps arbitrary: cs)
  case Nil
  then show ?case by simp
next
  case (Cons p ps)
  obtain r c where p: "p = (r, c)" by (cases p)
  with Cons.prems have rc: "r < size_cfg cfg" "c < size_cfg cfg"
    by (simp_all add: mem_cells)
  from Cons.prems have sub: "set ps \<subseteq> set (cells (size_cfg cfg))" by simp
  show ?case
    unfolding p for_each.simps validate_cell_pure [OF cfg g rc]
    by (simp add: Cons.IH [OF sub])
qed

lemma validateGrid_pure:
  assumes "wf_config cfg" and "wf_grid cfg g"
  shows "validateGrid g cfg =
           Inr (g, \<lparr>isValid = (filter (in_conflict g cfg) (cells (size_cfg cfg)) = []),
                    conflicts = filter (in_conflict g cfg) (cells (size_cfg cfg))\<rparr>)"
  by (simp add: validateGrid_def for_each_validate [OF assms])

text \<open>
  C8. On a well-formed grid and configuration, \<open>validateGrid\<close> returns normally and the grid
  it leaves behind is the grid it was given: every cell that was cleared for its check has
  its value back.
\<close>

theorem validateGrid_restores:
  assumes "wf_config cfg" and "wf_grid cfg grid"
  shows "\<exists>res. validateGrid grid cfg = Inr (grid, res)"
  by (simp add: validateGrid_pure [OF assms])

theorem validateGrid_restores_witness:
  "wf_config (getGridConfig easy) \<and> wf_grid (getGridConfig easy) two_ones \<and>
   (\<exists>res. validateGrid two_ones (getGridConfig easy) = Inr (two_ones, res))"
proof -
  have c: "wf_config (getGridConfig easy)"
    by (simp add: wf_config_def getGridConfig_def)
  have g: "wf_grid (getGridConfig easy) two_ones"
    by (simp add: wf_grid_def getGridConfig_def two_ones_def lit_def)
  show ?thesis using c g validateGrid_restores [OF c g] by blast
qed

text \<open>
  C5. On a well-formed grid and configuration, the conflicts that \<open>validateGrid\<close> reports
  are exactly the filled cells whose value is held by another cell of the same row, column
  or sub-box; two cells of one row that hold the same value are both reported; and
  \<open>isValid\<close> is true exactly when the list of conflicts is empty.
\<close>

theorem validateGrid_conflicts:
  assumes "wf_config cfg" and "wf_grid cfg grid"
  shows "\<exists>g' res. validateGrid grid cfg = Inr (g', res) \<and>
           set (conflicts res) =
             {(r, c). r < size_cfg cfg \<and> c < size_cfg cfg \<and> grid ! r ! c \<noteq> Null \<and>
                      clash grid r c (grid ! r ! c) cfg} \<and>
           (\<forall>r c1 c2. r < size_cfg cfg \<and> c1 < size_cfg cfg \<and> c2 < size_cfg cfg \<and> c1 \<noteq> c2 \<and>
                       grid ! r ! c1 \<noteq> Null \<and> grid ! r ! c1 = grid ! r ! c2 \<longrightarrow>
                       (r, c1) \<in> set (conflicts res) \<and> (r, c2) \<in> set (conflicts res)) \<and>
           isValid res = (conflicts res = [])"
proof -
  let ?cs = "filter (in_conflict grid cfg) (cells (size_cfg cfg))"
  have s: "set ?cs = {(r, c). r < size_cfg cfg \<and> c < size_cfg cfg \<and> grid ! r ! c \<noteq> Null \<and>
                      clash grid r c (grid ! r ! c) cfg}"
    by (auto simp: mem_cells in_conflict_def)
  have pair: "(r, c1) \<in> set ?cs \<and> (r, c2) \<in> set ?cs"
    if "r < size_cfg cfg" "c1 < size_cfg cfg" "c2 < size_cfg cfg" "c1 \<noteq> c2"
       "grid ! r ! c1 \<noteq> Null" "grid ! r ! c1 = grid ! r ! c2" for r c1 c2
  proof -
    have "clash grid r c1 (grid ! r ! c1) cfg"
      unfolding clash_def using that by metis
    moreover have "clash grid r c2 (grid ! r ! c2) cfg"
      unfolding clash_def using that by metis
    ultimately show ?thesis using that unfolding s by simp
  qed
  let ?res = "\<lparr>isValid = (?cs = []), conflicts = ?cs\<rparr>"
  have sel: "conflicts ?res = ?cs" "isValid ?res = (?cs = [])" by simp_all
  show ?thesis
  proof (intro exI conjI)
    show "validateGrid grid cfg = Inr (grid, ?res)"
      by (rule validateGrid_pure [OF assms])
    show "set (conflicts ?res) =
      {(r, c). r < size_cfg cfg \<and> c < size_cfg cfg \<and> grid ! r ! c \<noteq> Null \<and>
               clash grid r c (grid ! r ! c) cfg}"
      unfolding sel by (rule s)
    show "\<forall>r c1 c2. r < size_cfg cfg \<and> c1 < size_cfg cfg \<and> c2 < size_cfg cfg \<and> c1 \<noteq> c2 \<and>
                       grid ! r ! c1 \<noteq> Null \<and> grid ! r ! c1 = grid ! r ! c2 \<longrightarrow>
                       (r, c1) \<in> set (conflicts ?res) \<and> (r, c2) \<in> set (conflicts ?res)"
      unfolding sel using pair by blast
    show "isValid ?res = (conflicts ?res = [])"
      unfolding sel ..
  qed
qed

theorem validateGrid_conflicts_witness:
  "wf_config (getGridConfig easy) \<and> wf_grid (getGridConfig easy) two_ones \<and>
   validateGrid two_ones (getGridConfig easy) =
     Inr (two_ones, \<lparr>isValid = False, conflicts = [(0, 0), (0, 1)]\<rparr>) \<and>
   {(0, 0), (0, 1)} =
     {(r, c). r < size_cfg (getGridConfig easy) \<and> c < size_cfg (getGridConfig easy) \<and>
              two_ones ! r ! c \<noteq> Null \<and> clash two_ones r c (two_ones ! r ! c) (getGridConfig easy)}"
proof -
  have c: "wf_config (getGridConfig easy)"
    by (simp add: wf_config_def getGridConfig_def)
  have g: "wf_grid (getGridConfig easy) two_ones"
    by (simp add: wf_grid_def getGridConfig_def two_ones_def lit_def)
  have v: "validateGrid two_ones (getGridConfig easy) =
     Inr (two_ones, \<lparr>isValid = False, conflicts = [(0, 0), (0, 1)]\<rparr>)"
    by code_simp
  show ?thesis using c g v validateGrid_conflicts [OF c g] by auto
qed

section \<open>Candidates and cell selection\<close>

lemma possible_loop_pure:
  assumes "wf_config cfg" and "wf_grid cfg g" and "r < size_cfg cfg" and "c < size_cfg cfg"
  shows "possible_loop g r c cfg nums acc =
           Inr (acc @ filter (\<lambda>n. \<not> clash g r c (Num n) cfg) nums)"
  by (induction nums arbitrary: acc) (simp_all add: isValidMove_pure [OF assms])

lemma getPossibleNumbers_pure:
  assumes "wf_config cfg" and "wf_grid cfg g" and "r < size_cfg cfg" and "c < size_cfg cfg"
  shows "getPossibleNumbers g r c cfg =
           Inr (filter (\<lambda>n. \<not> clash g r c (Num n) cfg) [1..<Suc (maxNumber cfg)])"
  by (simp add: getPossibleNumbers_def possible_loop_pure [OF assms])

lemma candidates_le: "length (filter P [1..<Suc m]) \<le> m"
  using length_filter_le [of P "[1..<Suc m]"] by (simp del: upt_Suc)

lemma best_loop_props:
  assumes cfg: "wf_config cfg" and g: "wf_grid cfg g"
  shows "set ps \<subseteq> set (cells (size_cfg cfg)) \<Longrightarrow>
         \<exists>res. best_loop g cfg ps best m = Inr res \<and>
               (res = best \<or> (\<exists>r c. res = Some (r, c) \<and> (r, c) \<in> set ps \<and> g ! r ! c = Null))"
proof (induction ps arbitrary: best m)
  case Nil
  then show ?case by simp
next
  case (Cons p ps)
  obtain r c where p: "p = (r, c)" by (cases p)
  with Cons.prems have rc: "r < size_cfg cfg" "c < size_cfg cfg"
    by (simp_all add: mem_cells)
  from Cons.prems have sub: "set ps \<subseteq> set (cells (size_cfg cfg))" by simp
  show ?case
  proof (cases "g ! r ! c = Null")
    case False
    then have "best_loop g cfg (p # ps) best m = best_loop g cfg ps best m"
      by (simp add: p cell_at_wf [OF g rc])
    with Cons.IH [OF sub, of best m] show ?thesis by auto
  next
    case True
    let ?n = "length (filter (\<lambda>n. \<not> clash g r c (Num n) cfg) [1..<Suc (maxNumber cfg)])"
    consider (one) "?n < m" "?n = 1" | (less) "?n < m" "?n \<noteq> 1" | (ge) "\<not> ?n < m"
      by blast
    then show ?thesis
    proof cases
      case one
      then have "best_loop g cfg (p # ps) best m = Inr (Some (r, c))"
        using True by (simp add: p cell_at_wf [OF g rc] getPossibleNumbers_pure [OF cfg g rc])
      with True p show ?thesis by simp
    next
      case less
      then have "best_loop g cfg (p # ps) best m = best_loop g cfg ps (Some (r, c)) ?n"
        using True by (simp add: p cell_at_wf [OF g rc] getPossibleNumbers_pure [OF cfg g rc])
      with Cons.IH [OF sub, of "Some (r, c)" ?n] True p show ?thesis by auto
    next
      case ge
      then have "best_loop g cfg (p # ps) best m = best_loop g cfg ps best m"
        using True by (simp add: p cell_at_wf [OF g rc] getPossibleNumbers_pure [OF cfg g rc])
      with Cons.IH [OF sub, of best m] show ?thesis by auto
    qed
  qed
qed

lemma best_loop_None:
  assumes cfg: "wf_config cfg" and g: "wf_grid cfg g"
  shows "set ps \<subseteq> set (cells (size_cfg cfg)) \<Longrightarrow> best \<noteq> None \<or> maxNumber cfg < m \<Longrightarrow>
         best_loop g cfg ps best m = Inr None \<Longrightarrow>
         best = None \<and> (\<forall>p \<in> set ps. g ! fst p ! snd p \<noteq> Null)"
proof (induction ps arbitrary: best m)
  case Nil
  then show ?case by simp
next
  case (Cons p ps)
  obtain r c where p: "p = (r, c)" by (cases p)
  with Cons.prems have rc: "r < size_cfg cfg" "c < size_cfg cfg"
    by (simp_all add: mem_cells)
  from Cons.prems have sub: "set ps \<subseteq> set (cells (size_cfg cfg))" by simp
  show ?case
  proof (cases "g ! r ! c = Null")
    case False
    then have "best_loop g cfg (p # ps) best m = best_loop g cfg ps best m"
      by (simp add: p cell_at_wf [OF g rc])
    with Cons.IH [OF sub Cons.prems(2)] Cons.prems(3) False p show ?thesis by simp
  next
    case True
    let ?n = "length (filter (\<lambda>n. \<not> clash g r c (Num n) cfg) [1..<Suc (maxNumber cfg)])"
    have le: "?n \<le> maxNumber cfg" by (rule candidates_le)
    consider (one) "?n < m" "?n = 1" | (less) "?n < m" "?n \<noteq> 1" | (ge) "\<not> ?n < m"
      by blast
    then have False
    proof cases
      case one
      then have "best_loop g cfg (p # ps) best m = Inr (Some (r, c))"
        using True by (simp add: p cell_at_wf [OF g rc] getPossibleNumbers_pure [OF cfg g rc])
      with Cons.prems(3) show False by simp
    next
      case less
      then have "best_loop g cfg (p # ps) best m = best_loop g cfg ps (Some (r, c)) ?n"
        using True by (simp add: p cell_at_wf [OF g rc] getPossibleNumbers_pure [OF cfg g rc])
      with Cons.prems(3) have "best_loop g cfg ps (Some (r, c)) ?n = Inr None" by simp
      from Cons.IH [OF sub _ this] show False by simp
    next
      case ge
      then have eq: "best_loop g cfg (p # ps) best m = best_loop g cfg ps best m"
        using True by (simp add: p cell_at_wf [OF g rc] getPossibleNumbers_pure [OF cfg g rc])
      from ge le have "\<not> maxNumber cfg < m" by simp
      with Cons.prems(2) have b: "best \<noteq> None" by simp
      from eq Cons.prems(3) have "best_loop g cfg ps best m = Inr None" by simp
      from Cons.IH [OF sub Cons.prems(2) this] b show False by simp
    qed
    then show ?thesis ..
  qed
qed

lemma emptyCount_0: "emptyCount g cfg = 0 \<longleftrightarrow> (\<forall>p \<in> set (cells (size_cfg cfg)). g ! fst p ! snd p \<noteq> Null)"
  by (simp add: emptyCount_def filter_empty_conv)

lemma findBestEmptyCell_props:
  assumes cfg: "wf_config cfg" and g: "wf_grid cfg g"
  shows "(findBestEmptyCell g cfg = Inr None \<and> emptyCount g cfg = 0) \<or>
         (\<exists>r c. findBestEmptyCell g cfg = Inr (Some (r, c)) \<and>
                r < size_cfg cfg \<and> c < size_cfg cfg \<and> g ! r ! c = Null)"
proof -
  from best_loop_props [OF cfg g subset_refl, of None "maxNumber cfg + 1"]
  obtain res where res: "findBestEmptyCell g cfg = Inr res"
    and alt: "res = None \<or> (\<exists>r c. res = Some (r, c) \<and> (r, c) \<in> set (cells (size_cfg cfg)) \<and> g ! r ! c = Null)"
    unfolding findBestEmptyCell_def by blast
  show ?thesis
  proof (cases res)
    case None
    with res have "best_loop g cfg (cells (size_cfg cfg)) None (maxNumber cfg + 1) = Inr None"
      by (simp add: findBestEmptyCell_def)
    from best_loop_None [OF cfg g subset_refl _ this]
    have "emptyCount g cfg = 0" by (simp add: emptyCount_0)
    with res None show ?thesis by simp
  next
    case (Some p)
    with alt res show ?thesis by (auto simp: mem_cells)
  qed
qed

lemma findBestEmptyCell_full:
  assumes cfg: "wf_config cfg" and g: "wf_grid cfg g" and e: "emptyCount g cfg = 0"
  shows "findBestEmptyCell g cfg = Inr None"
proof -
  have "False" if "r < size_cfg cfg" "c < size_cfg cfg" "g ! r ! c = Null" for r c
  proof -
    from that have "(r, c) \<in> set (cells (size_cfg cfg))" by (simp add: mem_cells)
    with e have "g ! fst (r, c) ! snd (r, c) \<noteq> Null" unfolding emptyCount_0 by blast
    with that show False by simp
  qed
  with findBestEmptyCell_props [OF cfg g] show ?thesis by blast
qed

lemma emptyCount_put:
  assumes g: "wf_grid cfg g" and r: "r < size_cfg cfg" and c: "c < size_cfg cfg"
    and e: "g ! r ! c = Null" and v: "v \<noteq> Null"
  shows "Suc (emptyCount (put g r c v) cfg) = emptyCount g cfg"
proof -
  let ?cs = "cells (size_cfg cfg)"
  let ?A = "{p. g ! fst p ! snd p = Null} \<inter> set ?cs"
  let ?B = "{p. put g r c v ! fst p ! snd p = Null} \<inter> set ?cs"
  have d: "distinct ?cs" by (simp add: cells_def distinct_product)
  have B: "?B = ?A - {(r, c)}"
  proof (rule set_eqI)
    fix p :: "nat \<times> nat"
    obtain r' c' where p: "p = (r', c')" by (cases p)
    show "p \<in> ?B \<longleftrightarrow> p \<in> ?A - {(r, c)}"
    proof (cases "r' = r \<and> c' = c")
      case True
      then show ?thesis using v by (simp add: p put_same [OF g r c])
    next
      case False
      then have "put g r c v ! r' ! c' = g ! r' ! c'" by (intro put_other) blast
      with False show ?thesis by (auto simp: p)
    qed
  qed
  have mem: "(r, c) \<in> ?A" using r c e by (simp add: mem_cells)
  have fin: "finite ?A" by simp
  have "emptyCount g cfg = card ?A"
    by (simp add: emptyCount_def distinct_length_filter [OF d])
  moreover have "emptyCount (put g r c v) cfg = card ?B"
    by (simp add: emptyCount_def distinct_length_filter [OF d])
  moreover have "Suc (card (?A - {(r, c)})) = card ?A"
    using fin mem by (rule card_Suc_Diff1)
  ultimately show ?thesis unfolding B by simp
qed

section \<open>The backtracking search\<close>

lemma try_numbers_props:
  assumes cfg: "wf_config cfg" and g: "wf_grid cfg g"
    and r: "r < size_cfg cfg" and c: "c < size_cfg cfg" and e: "g ! r ! c = Null"
    and rec: "\<And>g1. wf_grid cfg g1 \<Longrightarrow> emptyCount g1 cfg < emptyCount g cfg \<Longrightarrow>
                \<exists>b g'. rec g1 = Some (Inr (b, g')) \<and> wf_grid cfg g' \<and> (\<not> b \<longrightarrow> g' = g1) \<and>
                       (b \<longrightarrow> emptyCount g' cfg = 0) \<and>
                       (\<forall>r c. g1 ! r ! c \<noteq> Null \<longrightarrow> g' ! r ! c = g1 ! r ! c)"
  shows "\<exists>b g'. try_numbers rec r c nums g = Some (Inr (b, g')) \<and> wf_grid cfg g' \<and>
                (\<not> b \<longrightarrow> g' = g) \<and> (b \<longrightarrow> emptyCount g' cfg = 0) \<and>
                (\<forall>r c. g ! r ! c \<noteq> Null \<longrightarrow> g' ! r ! c = g ! r ! c)"
proof (induction nums)
  case Nil
  show ?case using g by (intro exI [of _ False] exI [of _ g]) simp
next
  case (Cons n nums)
  let ?g1 = "put g r c (Num n)"
  have g1: "wf_grid cfg ?g1" by (rule wf_grid_put [OF g])
  have s1: "set_cell g r c (Num n) = Inr ?g1" by (rule set_cell_wf [OF g r c])
  have "Suc (emptyCount ?g1 cfg) = emptyCount g cfg"
    by (rule emptyCount_put [OF g r c e]) simp
  then have less: "emptyCount ?g1 cfg < emptyCount g cfg" by simp
  from rec [OF g1 less] obtain b g2 where
    r1: "rec ?g1 = Some (Inr (b, g2))" and g2: "wf_grid cfg g2"
    and unw: "\<not> b \<Longrightarrow> g2 = ?g1" and full: "b \<Longrightarrow> emptyCount g2 cfg = 0"
    and fr: "\<And>r' c'. ?g1 ! r' ! c' \<noteq> Null \<Longrightarrow> g2 ! r' ! c' = ?g1 ! r' ! c'"
    by blast
  show ?case
  proof (cases b)
    case True
    have frame: "g2 ! r' ! c' = g ! r' ! c'" if "g ! r' ! c' \<noteq> Null" for r' c'
    proof -
      from that e have ne: "r' \<noteq> r \<or> c' \<noteq> c" by auto
      then have "?g1 ! r' ! c' = g ! r' ! c'" by (rule put_other)
      with fr [of r' c'] that show ?thesis by simp
    qed
    have "try_numbers rec r c (n # nums) g = Some (Inr (True, g2))"
      using True by (simp add: s1 r1)
    with g2 full True frame show ?thesis
      by (intro exI [of _ True] exI [of _ g2]) simp
  next
    case False
    then have eq: "g2 = ?g1" by (rule unw)
    have "put ?g1 r c Null = put g r c (g ! r ! c)" by (simp add: put_put e)
    then have s2: "set_cell g2 r c Null = Inr g"
      by (simp add: eq set_cell_wf [OF g1 r c] put_id)
    have "try_numbers rec r c (n # nums) g = try_numbers rec r c nums g"
      using False by (simp add: s1 r1 s2)
    with Cons.IH show ?thesis by simp
  qed
qed

lemma solveRecursive_props:
  assumes cfg: "wf_config cfg"
  shows "wf_grid cfg g \<Longrightarrow> emptyCount g cfg < fuel \<Longrightarrow>
         \<exists>b g'. solveRecursive fuel g cfg = Some (Inr (b, g')) \<and> wf_grid cfg g' \<and>
                (\<not> b \<longrightarrow> g' = g) \<and> (b \<longrightarrow> emptyCount g' cfg = 0) \<and>
                (\<forall>r c. g ! r ! c \<noteq> Null \<longrightarrow> g' ! r ! c = g ! r ! c)"
proof (induction fuel arbitrary: g)
  case 0
  then show ?case by simp
next
  case (Suc fuel)
  note g = Suc.prems(1)
  have "(findBestEmptyCell g cfg = Inr None \<and> emptyCount g cfg = 0) \<or>
         (\<exists>r c. findBestEmptyCell g cfg = Inr (Some (r, c)) \<and>
                r < size_cfg cfg \<and> c < size_cfg cfg \<and> g ! r ! c = Null)"
    by (rule findBestEmptyCell_props [OF cfg g])
  then consider (full) "findBestEmptyCell g cfg = Inr None" "emptyCount g cfg = 0"
    | (cell) r c where "findBestEmptyCell g cfg = Inr (Some (r, c))"
        "r < size_cfg cfg" "c < size_cfg cfg" "g ! r ! c = Null"
    by auto
  then show ?case
  proof cases
    case full
    then show ?thesis using g
      by (intro exI [of _ True] exI [of _ g]) simp
  next
    case cell
    let ?nums = "filter (\<lambda>n. \<not> clash g r c (Num n) cfg) [1..<Suc (maxNumber cfg)]"
    have step: "solveRecursive (Suc fuel) g cfg =
        try_numbers (\<lambda>g. solveRecursive fuel g cfg) r c ?nums g"
      by (simp add: cell(1) getPossibleNumbers_pure [OF cfg g cell(2,3)])
    have rec: "\<exists>b g'. solveRecursive fuel g1 cfg = Some (Inr (b, g')) \<and> wf_grid cfg g' \<and>
                (\<not> b \<longrightarrow> g' = g1) \<and> (b \<longrightarrow> emptyCount g' cfg = 0) \<and>
                (\<forall>r c. g1 ! r ! c \<noteq> Null \<longrightarrow> g' ! r ! c = g1 ! r ! c)"
      if "wf_grid cfg g1" "emptyCount g1 cfg < emptyCount g cfg" for g1
    proof -
      from that(2) Suc.prems(2) have "emptyCount g1 cfg < fuel" by simp
      from Suc.IH [OF that(1) this] show ?thesis .
    qed
    show ?thesis
      unfolding step
      by (rule try_numbers_props [OF cfg g cell(2,3,4)]) (rule rec)
  qed
qed

lemma try_numbers_mono:
  assumes "\<And>g x. rec g = Some x \<Longrightarrow> rec' g = Some x"
  shows "try_numbers rec r c nums g = Some x \<Longrightarrow> try_numbers rec' r c nums g = Some x"
proof (induction nums arbitrary: g)
  case Nil
  then show ?case by simp
next
  case (Cons n nums)
  show ?case
  proof (cases "set_cell g r c (Num n)")
    case (Inl e)
    with Cons.prems show ?thesis by simp
  next
    case (Inr g1)
    show ?thesis
    proof (cases "rec g1")
      case None
      with Inr Cons.prems show ?thesis by simp
    next
      case (Some y)
      then have r': "rec' g1 = Some y" by (rule assms)
      from Cons.prems Cons.IH show ?thesis
        by (auto simp: Inr Some r' split: sum.splits bool.splits prod.splits)
    qed
  qed
qed

lemma solveRecursive_Suc:
  "solveRecursive fuel g cfg = Some x \<Longrightarrow> solveRecursive (Suc fuel) g cfg = Some x"
proof (induction fuel arbitrary: g x)
  case 0
  then show ?case by simp
next
  case (Suc fuel)
  have unf: "solveRecursive (Suc n) g cfg =
     (case findBestEmptyCell g cfg of
        Inl e \<Rightarrow> Some (Inl e)
      | Inr None \<Rightarrow> Some (Inr (True, g))
      | Inr (Some (row, col)) \<Rightarrow>
          (case getPossibleNumbers g row col cfg of
             Inl e \<Rightarrow> Some (Inl e)
           | Inr possibleNumbers \<Rightarrow>
               try_numbers (\<lambda>g. solveRecursive n g cfg) row col possibleNumbers g))" for n
    by simp
  have mono: "try_numbers (\<lambda>g. solveRecursive (Suc fuel) g cfg) r c nums g = Some x"
    if "try_numbers (\<lambda>g. solveRecursive fuel g cfg) r c nums g = Some x" for r c nums
    using _ that by (rule try_numbers_mono) (rule Suc.IH)
  from Suc.prems show ?case
    unfolding unf [of "Suc fuel"] unfolding unf [of fuel]
    by (auto simp del: solveRecursive.simps split: sum.splits option.splits prod.splits
        intro: mono)
qed

lemma solveRecursive_mono:
  assumes "fuel \<le> fuel'" and "solveRecursive fuel g cfg = Some x"
  shows "solveRecursive fuel' g cfg = Some x"
  using assms
  by (induction rule: dec_induct) (auto simp del: solveRecursive.simps intro: solveRecursive_Suc)

section \<open>Claims about \<open>solve\<close>\<close>

lemma wf_easy: "wf_config (getGridConfig easy)"
  by (simp add: wf_config_def getGridConfig_def)

lemma wf_puzzle4: "wf_grid (getGridConfig easy) (fst create4x4Puzzle)"
  by (simp add: wf_grid_def getGridConfig_def create4x4Puzzle_def lit_def)

lemma emptyCount_puzzle4: "emptyCount (fst create4x4Puzzle) (getGridConfig easy) = 8"
  by code_simp

lemma two_ones_unsolvable:
  "solveRecursive 15 two_ones (getGridConfig easy) = Some (Inr (False, two_ones))"
  by code_simp

text \<open>
  C10. On a well-formed grid and configuration, with the depth bound above the number of
  empty cells, \<open>solve\<close> returns an answer and a grid of the same shape in which every cell
  that was filled before the call holds its original value, whatever the answer.
\<close>

theorem solve_keeps_filled:
  assumes "wf_config cfg" and "wf_grid cfg grid" and "emptyCount grid cfg < fuel"
  shows "\<exists>b g'. solve fuel grid cfg = Some (Inr (b, g')) \<and> wf_grid cfg g' \<and>
           (\<forall>r < size_cfg cfg. \<forall>c < size_cfg cfg.
              grid ! r ! c \<noteq> Null \<longrightarrow> g' ! r ! c = grid ! r ! c)"
proof -
  from solveRecursive_props [OF assms] obtain b g' where
    "solveRecursive fuel grid cfg = Some (Inr (b, g'))" "wf_grid cfg g'"
    "\<forall>r c. grid ! r ! c \<noteq> Null \<longrightarrow> g' ! r ! c = grid ! r ! c"
    by blast
  then show ?thesis unfolding solve_def by blast
qed

theorem solve_keeps_filled_witness:
  "wf_config (getGridConfig easy) \<and> wf_grid (getGridConfig easy) (fst create4x4Puzzle) \<and>
   emptyCount (fst create4x4Puzzle) (getGridConfig easy) < 9 \<and>
   (\<exists>b g'. solve 9 (fst create4x4Puzzle) (getGridConfig easy) = Some (Inr (b, g')) \<and>
      wf_grid (getGridConfig easy) g' \<and>
      (\<forall>r < size_cfg (getGridConfig easy). \<forall>c < size_cfg (getGridConfig easy).
         fst create4x4Puzzle ! r ! c \<noteq> Null \<longrightarrow> g' ! r ! c = fst create4x4Puzzle ! r ! c))"
proof -
  have e: "emptyCount (fst create4x4Puzzle) (getGridConfig easy) < 9"
    by (simp add: emptyCount_puzzle4)
  show ?thesis
    using wf_easy wf_puzzle4 e solve_keeps_filled [OF wf_easy wf_puzzle4 e] by blast
qed

text \<open>
  Two facts about the search as it is written. Whatever the cells of a full grid hold, it
  finds no empty cell and answers true at once: the cells it is given are never checked
  against each other. And whenever it answers false, every placement has been undone: the
  grid is the grid of before the call.
\<close>

lemma solve_on_full_grid:
  assumes "wf_config cfg" and "wf_grid cfg grid" and "emptyCount grid cfg = 0" and "0 < fuel"
  shows "solve fuel grid cfg = Some (Inr (True, grid))"
proof -
  from \<open>0 < fuel\<close> obtain n where n: "fuel = Suc n" by (cases fuel) auto
  show ?thesis
    unfolding solve_def n by (simp add: findBestEmptyCell_full [OF assms(1,2,3)])
qed

lemma solve_false_restores:
  assumes "wf_config cfg" and "wf_grid cfg grid" and "emptyCount grid cfg < fuel"
  shows "\<exists>b g'. solve fuel grid cfg = Some (Inr (b, g')) \<and> (\<not> b \<longrightarrow> g' = grid)"
  using solveRecursive_props [OF assms] unfolding solve_def by blast

text \<open>The grid of the solver's own test for an unsolvable puzzle: the answer is false.\<close>

lemma solve_two_ones:
  assumes "14 < fuel"
  shows "solve fuel two_ones (getGridConfig easy) = Some (Inr (False, two_ones))"
proof -
  from assms have "15 \<le> fuel" by simp
  then show ?thesis
    unfolding solve_def using two_ones_unsolvable by (rule solveRecursive_mono)
qed

text \<open>
  C2 asks that on a grid with no empty cell \<open>solve\<close> answer true exactly when
  \<open>validateGrid\<close> reports no conflict. The code does not: the 4x4 grid that holds 1 in
  every cell has no empty cell, \<open>validateGrid\<close> reports all sixteen cells as conflicts and
  \<open>isComplete\<close> is false, and \<open>solve\<close> answers true (leaving the grid as it was).
\<close>

theorem solve_true_on_all_ones:
  "emptyCount all_ones (getGridConfig easy) = 0 \<and>
   validateGrid all_ones (getGridConfig easy) =
     Inr (all_ones,
          \<lparr>isValid = False,
           conflicts = [(0, 0), (0, 1), (0, 2), (0, 3), (1, 0), (1, 1), (1, 2), (1, 3),
                        (2, 0), (2, 1), (2, 2), (2, 3), (3, 0), (3, 1), (3, 2), (3, 3)]\<rparr>) \<and>
   isComplete all_ones (getGridConfig easy) = Inr (all_ones, False) \<and>
   solve 1 all_ones (getGridConfig easy) = Some (Inr (True, all_ones))"
  by code_simp

text \<open>
  C3 asks that \<open>solve\<close> answer false on every grid that has an empty cell and whose filled
  cells hold a duplicate. The code does not: the grid below has one empty cell, \<open>(3, 3)\<close>,
  and holds 2 twice in row 0 and twice in column 0 (\<open>validateGrid\<close> reports three
  conflicts), and \<open>solve\<close> answers true, having placed 1 in \<open>(3, 3)\<close>; \<open>isComplete\<close> of
  the grid it leaves is false.
\<close>

theorem solve_true_on_duplicate:
  "cell_at dup_one_empty 3 3 = Inr Null \<and>
   validateGrid dup_one_empty (getGridConfig easy) =
     Inr (dup_one_empty, \<lparr>isValid = False, conflicts = [(0, 0), (0, 1), (2, 0)]\<rparr>) \<and>
   solve 2 dup_one_empty (getGridConfig easy) =
     Some (Inr (True, map lit [[2, 2, 3, 4], [3, 4, 1, 2], [2, 1, 4, 3], [4, 3, 2, 1]])) \<and>
   isComplete (map lit [[2, 2, 3, 4], [3, 4, 1, 2], [2, 1, 4, 3], [4, 3, 2, 1]])
       (getGridConfig easy) =
     Inr (map lit [[2, 2, 3, 4], [3, 4, 1, 2], [2, 1, 4, 3], [4, 3, 2, 1]], False)"
  by code_simp

section \<open>The hint\<close>

lemma getPossibleNumbers_legal:
  assumes "wf_config cfg" and "wf_grid cfg g" and "r < size_cfg cfg" and "c < size_cfg cfg"
  shows "getPossibleNumbers g r c cfg = Inr (legal_candidates g r c cfg)"
  by (simp add: getPossibleNumbers_pure [OF assms] legal_candidates_def
      isValidMove_pure [OF assms])

lemma for_each_collect:
  assumes g: "wf_grid cfg g"
  shows "set ps \<subseteq> set (cells (size_cfg cfg)) \<Longrightarrow>
         for_each (collect_empty g) ps acc =
           Inr (acc @ filter (\<lambda>p. g ! fst p ! snd p = Null) ps)"
proof (induction ps arbitrary: acc)
  case Nil
  then show ?case by simp
next
  case (Cons p ps)
  obtain r c where p: "p = (r, c)" by (cases p)
  with Cons.prems have rc: "r < size_cfg cfg" "c < size_cfg cfg"
    by (simp_all add: mem_cells)
  from Cons.prems have sub: "set ps \<subseteq> set (cells (size_cfg cfg))" by simp
  have step: "collect_empty g (r, c) acc =
      Inr (if g ! r ! c = Null then acc @ [(r, c)] else acc)"
    by (simp add: collect_empty_def cell_at_wf [OF g rc])
  show ?case
    unfolding p for_each.simps step by (simp add: Cons.IH [OF sub])
qed

lemma count_all_pure:
  assumes cfg: "wf_config cfg" and g: "wf_grid cfg g"
  shows "set ps \<subseteq> set (cells (size_cfg cfg)) \<Longrightarrow>
         count_all g cfg ps =
           Inr (map (\<lambda>p. (length (legal_candidates g (fst p) (snd p) cfg), p)) ps)"
proof (induction ps)
  case Nil
  then show ?case by simp
next
  case (Cons p ps)
  obtain r c where p: "p = (r, c)" by (cases p)
  with Cons.prems have rc: "r < size_cfg cfg" "c < size_cfg cfg"
    by (simp_all add: mem_cells)
  from Cons.prems have sub: "set ps \<subseteq> set (cells (size_cfg cfg))" by simp
  show ?case
    by (simp add: p getPossibleNumbers_legal [OF cfg g rc] Cons.IH [OF sub])
qed

lemma sort_key_first:
  assumes "xs \<noteq> []"
  shows "sort_key f xs ! 0 \<in> set xs \<and> (\<forall>y \<in> set xs. f (sort_key f xs ! 0) \<le> f y)"
proof -
  let ?ys = "sort_key f xs"
  have s: "set ?ys = set xs" by simp
  have "?ys \<noteq> []"
  proof
    assume "?ys = []"
    then have "length ?ys = 0" by simp
    then have "length xs = 0" by (simp only: length_sort)
    with assms show False by simp
  qed
  then obtain h t where ht: "?ys = h # t" by (cases ?ys) auto
  have "sorted (map f ?ys)" by simp
  then have "\<forall>y \<in> set t. f h \<le> f y" unfolding ht by simp
  then have "\<forall>y \<in> set ?ys. f h \<le> f y" unfolding ht by simp
  with s show ?thesis unfolding ht by auto
qed

lemma getHint_pure:
  assumes cfg: "wf_config cfg" and g: "wf_grid cfg g"
  shows "emptyCount g cfg = 0 \<and> getHint g solution cfg = Inr None \<or>
         (\<exists>r c. getHint g solution cfg = Inr (Some (r, c)) \<and>
                r < size_cfg cfg \<and> c < size_cfg cfg \<and> g ! r ! c = Null \<and>
                (\<forall>r' < size_cfg cfg. \<forall>c' < size_cfg cfg. g ! r' ! c' = Null \<longrightarrow>
                   length (legal_candidates g r c cfg) \<le> length (legal_candidates g r' c' cfg)))"
proof -
  let ?es = "filter (\<lambda>p. g ! fst p ! snd p = Null) (cells (size_cfg cfg))"
  let ?k = "\<lambda>p. length (legal_candidates g (fst p) (snd p) cfg)"
  have coll: "for_each (collect_empty g) (cells (size_cfg cfg)) [] = Inr ?es"
    using for_each_collect [OF g subset_refl, of "[]"] by simp
  have cnt: "emptyCount g cfg = length ?es" by (simp add: emptyCount_def)
  have sub: "set ?es \<subseteq> set (cells (size_cfg cfg))" by auto
  have final: ?thesis
    if h: "getHint g solution cfg = Inr (Some p)" and mem: "p \<in> set ?es"
      and least: "\<forall>q \<in> set ?es. ?k p \<le> ?k q" for p
  proof -
    obtain r c where p: "p = (r, c)" by (cases p)
    from mem p have rc: "r < size_cfg cfg" "c < size_cfg cfg" "g ! r ! c = Null"
      by (simp_all add: mem_cells)
    have "length (legal_candidates g r c cfg) \<le> length (legal_candidates g r' c' cfg)"
      if "r' < size_cfg cfg" "c' < size_cfg cfg" "g ! r' ! c' = Null" for r' c'
    proof -
      from that have "(r', c') \<in> set ?es" by (simp add: mem_cells)
      with least have "?k p \<le> ?k (r', c')" by blast
      then show ?thesis by (simp add: p)
    qed
    with h rc show ?thesis unfolding p by blast
  qed
  consider (none) "length ?es = 0" | (one) "length ?es = 1" | (many) "1 < length ?es"
    by linarith
  then show ?thesis
  proof cases
    case none
    then show ?thesis by (simp add: getHint_def coll cnt)
  next
    case one
    then obtain p where es: "?es = [p]" by (cases ?es) auto
    have "getHint g solution cfg = Inr (Some p)"
      unfolding getHint_def coll es by simp
    moreover have "p \<in> set ?es" unfolding es by simp
    moreover have "\<forall>q \<in> set ?es. ?k p \<le> ?k q" unfolding es by simp
    ultimately show ?thesis by (rule final)
  next
    case many
    let ?ks = "map (\<lambda>p. (?k p, p)) ?es"
    have ne: "?ks \<noteq> []"
    proof
      assume "?ks = []"
      then have "length ?ks = 0" by (simp only: list.size)
      then have "length ?es = 0" by (simp only: length_map)
      with many show False by linarith
    qed
    let ?h = "sort_key fst ?ks ! 0"
    from sort_key_first [OF ne, of fst]
    have hm: "?h \<in> set ?ks" and hl: "\<forall>y \<in> set ?ks. fst ?h \<le> fst y" by blast+
    from hm obtain p where p: "p \<in> set ?es" "?h = (?k p, p)" by auto
    from ne have es_ne: "?es \<noteq> []" by simp
    have "getHint g solution cfg = Inr (Some (snd ?h))"
      using many es_ne by (simp add: getHint_def coll count_all_pure [OF cfg g sub])
    then have "getHint g solution cfg = Inr (Some p)" unfolding p(2) by simp
    moreover note p(1)
    moreover have "\<forall>q \<in> set ?es. ?k p \<le> ?k q"
    proof
      fix q assume "q \<in> set ?es"
      then have "(?k q, q) \<in> set ?ks" by auto
      with hl have "fst ?h \<le> fst (?k q, q)" by blast
      then show "?k p \<le> ?k q" unfolding p(2) by simp
    qed
    ultimately show ?thesis by (rule final)
  qed
qed

text \<open>
  C6. On a well-formed puzzle grid and configuration: with no empty cell \<open>getHint\<close> returns
  none; with at least one empty cell it returns the position of an empty cell whose number
  of legal candidates is the least among all empty cells; and the result is the same
  whatever the solution grid holds.
\<close>

theorem getHint_most_constrained:
  assumes "wf_config cfg" and "wf_grid cfg puzzle"
  shows "(emptyCount puzzle cfg = 0 \<longrightarrow> getHint puzzle solution cfg = Inr None) \<and>
         (0 < emptyCount puzzle cfg \<longrightarrow>
            (\<exists>r c. getHint puzzle solution cfg = Inr (Some (r, c)) \<and>
               r < size_cfg cfg \<and> c < size_cfg cfg \<and> puzzle ! r ! c = Null \<and>
               (\<forall>r' < size_cfg cfg. \<forall>c' < size_cfg cfg. puzzle ! r' ! c' = Null \<longrightarrow>
                  length (legal_candidates puzzle r c cfg)
                    \<le> length (legal_candidates puzzle r' c' cfg)))) \<and>
         getHint puzzle solution' cfg = getHint puzzle solution cfg"
proof (intro conjI impI)
  assume e: "emptyCount puzzle cfg = 0"
  have "False" if "r < size_cfg cfg" "c < size_cfg cfg" "puzzle ! r ! c = Null" for r c
  proof -
    from that have "(r, c) \<in> set (cells (size_cfg cfg))" by (simp add: mem_cells)
    with e have "puzzle ! fst (r, c) ! snd (r, c) \<noteq> Null" unfolding emptyCount_0 by blast
    with that show False by simp
  qed
  with getHint_pure [OF assms, of solution]
  show "getHint puzzle solution cfg = Inr None" by blast
next
  assume "0 < emptyCount puzzle cfg"
  with getHint_pure [OF assms, of solution]
  show "\<exists>r c. getHint puzzle solution cfg = Inr (Some (r, c)) \<and>
               r < size_cfg cfg \<and> c < size_cfg cfg \<and> puzzle ! r ! c = Null \<and>
               (\<forall>r' < size_cfg cfg. \<forall>c' < size_cfg cfg. puzzle ! r' ! c' = Null \<longrightarrow>
                  length (legal_candidates puzzle r c cfg)
                    \<le> length (legal_candidates puzzle r' c' cfg))"
    by simp
next
  show "getHint puzzle solution' cfg = getHint puzzle solution cfg"
    by (simp add: getHint_def)
qed

theorem getHint_most_constrained_witness:
  "wf_config (getGridConfig easy) \<and> wf_grid (getGridConfig easy) (fst create4x4Puzzle) \<and>
   0 < emptyCount (fst create4x4Puzzle) (getGridConfig easy) \<and>
   getHint (fst create4x4Puzzle) (snd create4x4Puzzle) (getGridConfig easy) = Inr (Some (0, 1)) \<and>
   (\<exists>r c. getHint (fst create4x4Puzzle) (snd create4x4Puzzle) (getGridConfig easy) = Inr (Some (r, c)) \<and>
      r < size_cfg (getGridConfig easy) \<and> c < size_cfg (getGridConfig easy) \<and>
      fst create4x4Puzzle ! r ! c = Null \<and>
      (\<forall>r' < size_cfg (getGridConfig easy). \<forall>c' < size_cfg (getGridConfig easy).
         fst create4x4Puzzle ! r' ! c' = Null \<longrightarrow>
         length (legal_candidates (fst create4x4Puzzle) r c (getGridConfig easy))
           \<le> length (legal_candidates (fst create4x4Puzzle) r' c' (getGridConfig easy))))"
proof -
  have e: "0 < emptyCount (fst create4x4Puzzle) (getGridConfig easy)"
    by (simp add: emptyCount_puzzle4)
  have h: "getHint (fst create4x4Puzzle) (snd create4x4Puzzle) (getGridConfig easy) = Inr (Some (0, 1))"
    by code_simp
  show ?thesis
    using wf_easy wf_puzzle4 e h
      getHint_most_constrained [OF wf_easy wf_puzzle4, of "snd create4x4Puzzle"]
    by blast
qed

section \<open>The predefined puzzles\<close>

lemma isComplete_pure:
  assumes cfg: "wf_config cfg" and g: "wf_grid cfg g"
  shows "isComplete g cfg =
           Inr (g, emptyCount g cfg = 0 \<and> filter (in_conflict g cfg) (cells (size_cfg cfg)) = [])"
proof -
  have "for_any (\<lambda>(row, col). holds g row col Null) (cells (size_cfg cfg)) =
          Inr (\<exists>p \<in> set (cells (size_cfg cfg)). g ! fst p ! snd p = Null)"
    by (rule for_any_pure) (auto simp: mem_cells holds_wf [OF g])
  then show ?thesis
    by (auto simp: isComplete_def validateGrid_pure [OF assms] emptyCount_0 split: bool.splits)
qed

lemma all_cells_iff: "(\<forall>r < n. \<forall>c < n. P r c) \<longleftrightarrow> list_all (\<lambda>p. P (fst p) (snd p)) (cells n)"
proof
  assume "\<forall>r < n. \<forall>c < n. P r c"
  then show "list_all (\<lambda>p. P (fst p) (snd p)) (cells n)"
    by (auto simp: list_all_iff mem_cells)
next
  assume a: "list_all (\<lambda>p. P (fst p) (snd p)) (cells n)"
  show "\<forall>r < n. \<forall>c < n. P r c"
  proof (intro allI impI)
    fix r c assume "r < n" "c < n"
    then have "(r, c) \<in> set (cells n)" by (simp add: mem_cells)
    with a have "P (fst (r, c)) (snd (r, c))" unfolding list_all_iff by blast
    then show "P r c" by simp
  qed
qed

lemma no_conflicts_iff:
  assumes cfg: "wf_config cfg" and g: "wf_grid cfg g"
  shows "filter (in_conflict g cfg) (cells (size_cfg cfg)) = [] \<longleftrightarrow>
         list_all (\<lambda>p. g ! fst p ! snd p = Null \<or>
                        isValidMove g (fst p) (snd p) (g ! fst p ! snd p) cfg = Inr True)
           (cells (size_cfg cfg))"
proof -
  have "in_conflict g cfg p \<longleftrightarrow>
        \<not> (g ! fst p ! snd p = Null \<or>
           isValidMove g (fst p) (snd p) (g ! fst p ! snd p) cfg = Inr True)"
    if "p \<in> set (cells (size_cfg cfg))" for p
  proof -
    obtain r c where p: "p = (r, c)" by (cases p)
    with that have rc: "r < size_cfg cfg" "c < size_cfg cfg" by (simp_all add: mem_cells)
    show ?thesis by (simp add: p in_conflict_def isValidMove_pure [OF cfg g rc])
  qed
  then show ?thesis by (auto simp: filter_empty_conv list_all_iff)
qed

lemma wf_medium: "wf_config (getGridConfig medium)"
  by (simp add: wf_config_def getGridConfig_def)

lemma wf_hard: "wf_config (getGridConfig hard)"
  by (simp add: wf_config_def getGridConfig_def)

lemma wf_solution4: "wf_grid (getGridConfig easy) (snd create4x4Puzzle)"
  by (simp add: wf_grid_def getGridConfig_def create4x4Puzzle_def lit_def)

lemma wf_puzzle6: "wf_grid (getGridConfig medium) (fst create6x6Puzzle)"
  by (simp add: wf_grid_def getGridConfig_def create6x6Puzzle_def lit_def)

lemma wf_solution6: "wf_grid (getGridConfig medium) (snd create6x6Puzzle)"
  by (simp add: wf_grid_def getGridConfig_def create6x6Puzzle_def lit_def)

lemma wf_puzzle16: "wf_grid (getGridConfig hard) (fst create16x16Puzzle)"
  by (simp add: wf_grid_def getGridConfig_def create16x16Puzzle_def Let_def list_all_iff
      del: upt_Suc)

lemma wf_solution16: "wf_grid (getGridConfig hard) (snd create16x16Puzzle)"
  by (simp add: wf_grid_def getGridConfig_def create16x16Puzzle_def Let_def list_all_iff
      del: upt_Suc)

lemma solution16_nth:
  "r < 16 \<Longrightarrow> c < 16 \<Longrightarrow>
   snd create16x16Puzzle ! r ! c = Num ((r * 4 + r div 4 + c) mod 16 + 1)"
  by (simp add: create16x16Puzzle_def Let_def del: upt_Suc)

lemma puzzle16_nth:
  "r < 16 \<Longrightarrow> c < 16 \<Longrightarrow>
   fst create16x16Puzzle ! r ! c =
     (if (r + c) mod 3 = 0 then Null else snd create16x16Puzzle ! r ! c)"
  by (simp add: create16x16Puzzle_def Let_def del: upt_Suc)

lemma rows16: "list_all (\<lambda>r. list_all (\<lambda>c. list_all (\<lambda>c'. c' = c \<or>
        (r * 4 + r div 4 + c') mod 16 \<noteq> (r * 4 + r div 4 + c) mod 16)
      [0..<16]) [0..<16]) [0..<(16::nat)]"
  by code_simp

lemma cols16: "list_all (\<lambda>r. list_all (\<lambda>c. list_all (\<lambda>r'. r' = r \<or>
        (r' * 4 + r' div 4 + c) mod 16 \<noteq> (r * 4 + r div 4 + c) mod 16)
      [0..<16]) [0..<16]) [0..<(16::nat)]"
  by code_simp

lemma boxes16: "list_all (\<lambda>r. list_all (\<lambda>c. list_all (\<lambda>r'. list_all (\<lambda>c'. (r' = r \<and> c' = c) \<or>
        (r' * 4 + r' div 4 + c') mod 16 \<noteq> (r * 4 + r div 4 + c) mod 16)
      [c div 4 * 4..<c div 4 * 4 + 4]) [r div 4 * 4..<r div 4 * 4 + 4]) [0..<16]) [0..<(16::nat)]"
  by code_simp

lemma no_clash16:
  assumes r: "r < 16" and c: "c < 16"
  shows "\<not> clash (snd create16x16Puzzle) r c (snd create16x16Puzzle ! r ! c) (getGridConfig hard)"
proof -
  let ?f = "\<lambda>r c. (r * 4 + r div 4 + c) mod (16::nat)"
  let ?s = "snd create16x16Puzzle"
  have mem: "x \<in> {0..<16}" if "x < 16" for x :: nat
    using that by simp
  have mem2: "x \<in> {a..<b}" if "a \<le> x" "x < b" for x a b :: nat
    using that by simp
  have row: "c' = c" if "c' < 16" "?f r c' = ?f r c" for c'
  proof -
    from rows16 have "\<forall>r\<in>{0..<16}. \<forall>c\<in>{0..<16}. \<forall>c'\<in>{0..<16}.
        c' = c \<or> ?f r c' \<noteq> ?f r c"
      by (simp only: list_all_iff set_upt)
    with mem [OF r] mem [OF c] mem [OF that(1)] that(2) show ?thesis by blast
  qed
  have col: "r' = r" if "r' < 16" "?f r' c = ?f r c" for r'
  proof -
    from cols16 have "\<forall>r\<in>{0..<16}. \<forall>c\<in>{0..<16}. \<forall>r'\<in>{0..<16}.
        r' = r \<or> ?f r' c \<noteq> ?f r c"
      by (simp only: list_all_iff set_upt)
    with mem [OF r] mem [OF c] mem [OF that(1)] that(2) show ?thesis by blast
  qed
  have box: "r' = r \<and> c' = c"
    if "r div 4 * 4 \<le> r'" "r' < r div 4 * 4 + 4" "c div 4 * 4 \<le> c'" "c' < c div 4 * 4 + 4"
       "?f r' c' = ?f r c" for r' c'
  proof -
    from boxes16 have "\<forall>r\<in>{0..<16}. \<forall>c\<in>{0..<16}.
        \<forall>r'\<in>{r div 4 * 4..<r div 4 * 4 + 4}. \<forall>c'\<in>{c div 4 * 4..<c div 4 * 4 + 4}.
        (r' = r \<and> c' = c) \<or> ?f r' c' \<noteq> ?f r c"
      by (simp only: list_all_iff set_upt)
    with mem [OF r] mem [OF c] mem2 [OF that(1,2)] mem2 [OF that(3,4)] that(5)
    show ?thesis by blast
  qed
  have "r div 4 * 4 + 4 \<le> 16"
    using box_row_bound [OF wf_hard, of r] r by (simp add: getGridConfig_def)
  then have rb: "r' < 16" if "r' < r div 4 * 4 + 4" for r'
    using that by linarith
  have "c div 4 * 4 + 4 \<le> 16"
    using box_col_bound [OF wf_hard, of c] c by (simp add: getGridConfig_def)
  then have cb: "c' < 16" if "c' < c div 4 * 4 + 4" for c'
    using that by linarith
  have eq: "?f r' c' = ?f r c" if "r' < 16" "c' < 16" "?s ! r' ! c' = ?s ! r ! c" for r' c'
    using that r c by (simp add: solution16_nth)
  have cfg: "size_cfg (getGridConfig hard) = 16" "subGridRows (getGridConfig hard) = 4"
    "subGridCols (getGridConfig hard) = 4"
    by (simp_all add: getGridConfig_def)
  have "False" if "c' < 16" "c' \<noteq> c" "?s ! r ! c' = ?s ! r ! c" for c'
    using row [OF that(1) eq [OF r that(1,3)]] that(2) by simp
  moreover have "False" if "r' < 16" "r' \<noteq> r" "?s ! r' ! c = ?s ! r ! c" for r'
    using col [OF that(1) eq [OF that(1) c that(3)]] that(2) by simp
  moreover have "False"
    if "r div 4 * 4 \<le> r'" "r' < r div 4 * 4 + 4" "c div 4 * 4 \<le> c'" "c' < c div 4 * 4 + 4"
       "r' \<noteq> r \<or> c' \<noteq> c" "?s ! r' ! c' = ?s ! r ! c" for r' c'
    using box [OF that(1,2,3,4) eq [OF rb [OF that(2)] cb [OF that(4)] that(6)]] that(5)
    by simp
  ultimately show ?thesis
    unfolding clash_def cfg by blast
qed

lemma valid16: "filter (in_conflict (snd create16x16Puzzle) (getGridConfig hard))
                  (cells (size_cfg (getGridConfig hard))) = []"
proof -
  have "\<not> in_conflict (snd create16x16Puzzle) (getGridConfig hard) p"
    if "p \<in> set (cells (size_cfg (getGridConfig hard)))" for p
  proof -
    obtain r c where p: "p = (r, c)" by (cases p)
    with that have "r < 16" "c < 16" by (simp_all add: mem_cells getGridConfig_def)
    then show ?thesis by (simp add: p in_conflict_def no_clash16)
  qed
  then show ?thesis by (simp add: filter_empty_conv)
qed

lemma full16: "emptyCount (snd create16x16Puzzle) (getGridConfig hard) = 0"
proof -
  have "snd create16x16Puzzle ! fst p ! snd p \<noteq> Null"
    if "p \<in> set (cells (size_cfg (getGridConfig hard)))" for p
  proof -
    obtain r c where p: "p = (r, c)" by (cases p)
    with that have "r < 16" "c < 16" by (simp_all add: mem_cells getGridConfig_def)
    then show ?thesis by (simp add: p solution16_nth)
  qed
  then show ?thesis by (simp add: emptyCount_0)
qed

lemma valid4: "filter (in_conflict (snd create4x4Puzzle) (getGridConfig easy))
                 (cells (size_cfg (getGridConfig easy))) = []"
  unfolding no_conflicts_iff [OF wf_easy wf_solution4] by code_simp

lemma full4: "emptyCount (snd create4x4Puzzle) (getGridConfig easy) = 0"
  by code_simp

lemma valid6: "filter (in_conflict (snd create6x6Puzzle) (getGridConfig medium))
                 (cells (size_cfg (getGridConfig medium))) = []"
  unfolding no_conflicts_iff [OF wf_medium wf_solution6] by code_simp

lemma full6: "emptyCount (snd create6x6Puzzle) (getGridConfig medium) = 0"
  by code_simp

lemma range4:
  "list_all (\<lambda>p. in_range (getGridConfig easy) (snd create4x4Puzzle ! fst p ! snd p))
     (cells (size_cfg (getGridConfig easy)))"
  by code_simp

lemma range6:
  "list_all (\<lambda>p. in_range (getGridConfig medium) (snd create6x6Puzzle ! fst p ! snd p))
     (cells (size_cfg (getGridConfig medium)))"
  by code_simp

lemma agree4:
  "list_all (\<lambda>p. fst create4x4Puzzle ! fst p ! snd p \<noteq> Null \<longrightarrow>
                  fst create4x4Puzzle ! fst p ! snd p = snd create4x4Puzzle ! fst p ! snd p)
     (cells (size_cfg (getGridConfig easy)))"
  by code_simp

lemma agree6:
  "list_all (\<lambda>p. fst create6x6Puzzle ! fst p ! snd p \<noteq> Null \<longrightarrow>
                  fst create6x6Puzzle ! fst p ! snd p = snd create6x6Puzzle ! fst p ! snd p)
     (cells (size_cfg (getGridConfig medium)))"
  by code_simp

text \<open>What the claim asks of a puzzle and solution pair under a configuration.\<close>

lemma pair_ok:
  assumes cfg: "wf_config cfg" and p: "wf_grid cfg puzzle" and s: "wf_grid cfg solution"
    and full: "emptyCount solution cfg = 0"
    and valid: "filter (in_conflict solution cfg) (cells (size_cfg cfg)) = []"
    and range: "\<forall>r < size_cfg cfg. \<forall>c < size_cfg cfg. in_range cfg (solution ! r ! c)"
    and agree: "\<forall>r < size_cfg cfg. \<forall>c < size_cfg cfg.
                  puzzle ! r ! c \<noteq> Null \<longrightarrow> puzzle ! r ! c = solution ! r ! c"
  shows "wf_config cfg \<and> wf_grid cfg puzzle \<and> wf_grid cfg solution \<and>
         (\<forall>r < size_cfg cfg. \<forall>c < size_cfg cfg. in_range cfg (solution ! r ! c)) \<and>
         validateGrid solution cfg = Inr (solution, \<lparr>isValid = True, conflicts = []\<rparr>) \<and>
         isComplete solution cfg = Inr (solution, True) \<and>
         (\<forall>r < size_cfg cfg. \<forall>c < size_cfg cfg.
            puzzle ! r ! c \<noteq> Null \<longrightarrow> puzzle ! r ! c = solution ! r ! c)"
  using assms by (simp add: validateGrid_pure [OF cfg s] isComplete_pure [OF cfg s])

text \<open>
  C9. For each difficulty, \<open>generatePuzzle\<close> returns the configuration of that difficulty,
  a puzzle grid and a solution grid of its size; every cell of the solution holds a number
  in \<open>1..size\<close>, \<open>validateGrid\<close> reports no conflict in the solution, \<open>isComplete\<close> of the
  solution is true, and every filled cell of the puzzle holds the value of the same cell
  of the solution.
\<close>

theorem generatePuzzle_pair:
  "case generatePuzzle difficulty of (puzzle, solution, cfg) \<Rightarrow>
     cfg = getGridConfig difficulty \<and>
     wf_config cfg \<and> wf_grid cfg puzzle \<and> wf_grid cfg solution \<and>
     (\<forall>r < size_cfg cfg. \<forall>c < size_cfg cfg. in_range cfg (solution ! r ! c)) \<and>
     validateGrid solution cfg = Inr (solution, \<lparr>isValid = True, conflicts = []\<rparr>) \<and>
     isComplete solution cfg = Inr (solution, True) \<and>
     (\<forall>r < size_cfg cfg. \<forall>c < size_cfg cfg.
        puzzle ! r ! c \<noteq> Null \<longrightarrow> puzzle ! r ! c = solution ! r ! c)"
proof (cases difficulty)
  case easy
  have gen: "generatePuzzle easy = (fst create4x4Puzzle, snd create4x4Puzzle, getGridConfig easy)"
    by (simp add: generatePuzzle_def createPredefinedPuzzle_def getGridConfig_def
        case_prod_unfold)
  show ?thesis
    unfolding easy gen prod.case
    by (intro conjI refl pair_ok [OF wf_easy wf_puzzle4 wf_solution4 full4 valid4])
       (simp_all only: all_cells_iff range4 agree4)
next
  case medium
  have gen: "generatePuzzle medium =
      (fst create6x6Puzzle, snd create6x6Puzzle, getGridConfig medium)"
    by (simp add: generatePuzzle_def createPredefinedPuzzle_def getGridConfig_def
        case_prod_unfold)
  show ?thesis
    unfolding medium gen prod.case
    by (intro conjI refl pair_ok [OF wf_medium wf_puzzle6 wf_solution6 full6 valid6])
       (simp_all only: all_cells_iff range6 agree6)
next
  case hard
  have gen: "generatePuzzle hard =
      (fst create16x16Puzzle, snd create16x16Puzzle, getGridConfig hard)"
    by (simp add: generatePuzzle_def createPredefinedPuzzle_def getGridConfig_def
        case_prod_unfold)
  have range: "\<forall>r < size_cfg (getGridConfig hard). \<forall>c < size_cfg (getGridConfig hard).
      in_range (getGridConfig hard) (snd create16x16Puzzle ! r ! c)"
  proof -
    have "x mod 16 \<le> 15" for x :: nat
      using mod_less_divisor [of 16 x] by linarith
    then show ?thesis by (simp add: getGridConfig_def solution16_nth in_range_def)
  qed
  have agree: "\<forall>r < size_cfg (getGridConfig hard). \<forall>c < size_cfg (getGridConfig hard).
      fst create16x16Puzzle ! r ! c \<noteq> Null \<longrightarrow>
      fst create16x16Puzzle ! r ! c = snd create16x16Puzzle ! r ! c"
    by (simp add: getGridConfig_def puzzle16_nth)
  show ?thesis
    unfolding hard gen prod.case
    by (intro conjI refl pair_ok [OF wf_hard wf_puzzle16 wf_solution16 full16 valid16 range agree])
qed

theorem generatePuzzle_pair_witness:
  "fst (generatePuzzle easy) ! 0 ! 0 \<noteq> Null \<and>
   fst (generatePuzzle easy) ! 0 ! 0 = fst (snd (generatePuzzle easy)) ! 0 ! 0 \<and>
   isComplete (fst (snd (generatePuzzle easy))) (snd (snd (generatePuzzle easy))) =
     Inr (fst (snd (generatePuzzle easy)), True)"
proof -
  have n: "fst (generatePuzzle easy) ! 0 ! 0 \<noteq> Null"
    by (simp add: generatePuzzle_def createPredefinedPuzzle_def getGridConfig_def
        create4x4Puzzle_def lit_def)
  have z: "(0::nat) < size_cfg (getGridConfig easy)" by (simp add: getGridConfig_def)
  show ?thesis
    using n z generatePuzzle_pair [of easy] by (auto split: prod.splits)
qed

section \<open>Random generation of a complete grid\<close>

lemma first_empty_loop_Some:
  "first_empty_loop g ps = Inr (Some (r, c)) \<Longrightarrow> (r, c) \<in> set ps \<and> cell_at g r c = Inr Null"
proof (induction ps)
  case Nil
  then show ?case by simp
next
  case (Cons p ps)
  obtain r' c' where p: "p = (r', c')" by (cases p)
  from Cons show ?case
    unfolding p by (auto split: sum.splits if_splits)
qed

lemma first_empty_loop_short:
  "(r, c) \<in> set ps \<Longrightarrow> length g \<le> r \<Longrightarrow> first_empty_loop g ps \<noteq> Inr None"
proof (induction ps)
  case Nil
  then show ?case by simp
next
  case (Cons p ps)
  obtain r' c' where p: "p = (r', c')" by (cases p)
  show ?case
  proof (cases "p = (r, c)")
    case True
    with Cons.prems(2) show ?thesis by (simp add: cell_at_def)
  next
    case False
    with Cons.prems have "(r, c) \<in> set ps" by simp
    from Cons.IH [OF this Cons.prems(2)] show ?thesis
      unfolding p by (auto split: sum.splits)
  qed
qed

lemma findFirstEmptyCell_Some:
  assumes "findFirstEmptyCell g = Inr (Some (r, c))"
  shows "r < 9 \<and> c < 9 \<and> r < length g \<and> c < length (g ! r) \<and> g ! r ! c = Null"
proof -
  from assms have "(r, c) \<in> set (cells 9)" and "cell_at g r c = Inr Null"
    unfolding findFirstEmptyCell_def by (auto dest: first_empty_loop_Some)
  then show ?thesis
    by (auto simp: mem_cells cell_at_def split: if_splits)
qed

lemma findFirstEmptyCell_short: "length g < 9 \<Longrightarrow> findFirstEmptyCell g \<noteq> Inr None"
  unfolding findFirstEmptyCell_def
  by (rule first_empty_loop_short [of "length g" 0]) (simp_all add: mem_cells)

lemma fill_numbers_props:
  assumes g: "wf_grid cfg g"
    and r: "r < size_cfg cfg" and c: "c < size_cfg cfg" and r9: "r < 9" and c9: "c < 9"
    and e: "g ! r ! c = Null"
    and rec: "\<And>g1 rnd1 b g' rnd'. wf_grid cfg g1 \<Longrightarrow> rec g1 rnd1 = Some (Inr (b, g', rnd')) \<Longrightarrow>
                wf_grid cfg g' \<and> (\<not> b \<longrightarrow> g' = g1) \<and> (size_cfg cfg < 9 \<longrightarrow> \<not> b) \<and>
                (\<forall>r c. 9 \<le> r \<or> 9 \<le> c \<longrightarrow> g' ! r ! c = g1 ! r ! c)"
  shows "fill_numbers rec cfg r c nums g rnd = Some (Inr (b, g', rnd')) \<Longrightarrow>
         wf_grid cfg g' \<and> (\<not> b \<longrightarrow> g' = g) \<and> (size_cfg cfg < 9 \<longrightarrow> \<not> b) \<and>
         (\<forall>r c. 9 \<le> r \<or> 9 \<le> c \<longrightarrow> g' ! r ! c = g ! r ! c)"
proof (induction nums arbitrary: rnd)
  case Nil
  then show ?case using g by simp
next
  case (Cons n nums)
  let ?g1 = "put g r c (Num n)"
  have g1: "wf_grid cfg ?g1" by (rule wf_grid_put [OF g])
  have s1: "set_cell g r c (Num n) = Inr ?g1" by (rule set_cell_wf [OF g r c])
  have "put ?g1 r c Null = put g r c (g ! r ! c)" by (simp add: put_put e)
  then have s2: "set_cell ?g1 r c Null = Inr g"
    by (simp add: set_cell_wf [OF g1 r c] put_id)
  show ?case
  proof (cases "isValidMove g r c (Num n) cfg")
    case (Inl err)
    with Cons.prems show ?thesis by simp
  next
    case (Inr ok)
    show ?thesis
    proof (cases ok)
      case False
      with Inr Cons.prems have "fill_numbers rec cfg r c nums g rnd = Some (Inr (b, g', rnd'))"
        by simp
      then show ?thesis by (rule Cons.IH)
    next
      case True
      show ?thesis
      proof (cases "rec ?g1 rnd")
        case None
        with Inr True s1 Cons.prems show ?thesis by simp
      next
        case (Some res)
        show ?thesis
        proof (cases res)
          case (Inl err)
          with Inr True s1 Some Cons.prems show ?thesis by simp
        next
          case res: (Inr t)
          obtain b2 g2 rnd2 where t: "t = (b2, g2, rnd2)" by (cases t)
          have req: "rec ?g1 rnd = Some (Inr (b2, g2, rnd2))"
            using Some res t by simp
          note P = rec [OF g1 req]
          have g2: "wf_grid cfg g2" and unw: "\<not> b2 \<Longrightarrow> g2 = ?g1"
            and small: "size_cfg cfg < 9 \<Longrightarrow> \<not> b2"
            and fr: "\<And>r' c'. 9 \<le> r' \<or> 9 \<le> c' \<Longrightarrow> g2 ! r' ! c' = ?g1 ! r' ! c'"
            using P by blast+
          show ?thesis
          proof (cases b2)
            case b2: True
            with Inr True s1 Some res t Cons.prems
            have out: "b = True" "g' = g2" by simp_all
            have "g2 ! r' ! c' = g ! r' ! c'" if "9 \<le> r' \<or> 9 \<le> c'" for r' c'
            proof -
              from that r9 c9 have "r' \<noteq> r \<or> c' \<noteq> c" by auto
              then have "?g1 ! r' ! c' = g ! r' ! c'" by (rule put_other)
              with fr [OF that] show ?thesis by simp
            qed
            with g2 small b2 show ?thesis unfolding out by blast
          next
            case b2: False
            then have "g2 = ?g1" by (rule unw)
            with Inr True s1 Some res t b2 s2 Cons.prems
            have "fill_numbers rec cfg r c nums g rnd2 = Some (Inr (b, g', rnd'))"
              by simp
            then show ?thesis by (rule Cons.IH)
          qed
        qed
      qed
    qed
  qed
qed

lemma fillGridRandomly_props:
  "wf_grid cfg g \<Longrightarrow> fillGridRandomly fuel g cfg rnd = Some (Inr (b, g', rnd')) \<Longrightarrow>
   wf_grid cfg g' \<and> (\<not> b \<longrightarrow> g' = g) \<and> (size_cfg cfg < 9 \<longrightarrow> \<not> b) \<and>
   (\<forall>r c. 9 \<le> r \<or> 9 \<le> c \<longrightarrow> g' ! r ! c = g ! r ! c)"
proof (induction fuel arbitrary: g rnd b g' rnd')
  case 0
  then show ?case by simp
next
  case (Suc fuel)
  note g = Suc.prems(1)
  show ?case
  proof (cases "findFirstEmptyCell g")
    case (Inl err)
    with Suc.prems(2) show ?thesis by simp
  next
    case (Inr cell)
    show ?thesis
    proof (cases cell)
      case None
      with Inr have "\<not> length g < 9" using findFirstEmptyCell_short [of g] by auto
      then have "\<not> size_cfg cfg < 9" using g by (simp add: wf_grid_def)
      with Inr None Suc.prems show ?thesis by simp
    next
      case (Some p)
      obtain r c where p: "p = (r, c)" by (cases p)
      from findFirstEmptyCell_Some [of g r c] Inr Some p g
      have rc: "r < size_cfg cfg" "r < 9" "c < 9" "g ! r ! c = Null" "c < length (g ! r)"
        by (simp_all add: wf_grid_def)
      with g have c: "c < size_cfg cfg" by (simp add: wf_grid_row)
      obtain numbers rnd1 where sh: "shuffleArray [1..<Suc (maxNumber cfg)] rnd = (numbers, rnd1)"
        by (cases "shuffleArray [1..<Suc (maxNumber cfg)] rnd")
      from Suc.prems(2) Inr Some p sh
      have run: "fill_numbers (\<lambda>g r. fillGridRandomly fuel g cfg r) cfg r c numbers g rnd1 =
          Some (Inr (b, g', rnd'))"
        by simp
      show ?thesis
        by (rule fill_numbers_props [OF g rc(1) c rc(2,3,4) _ run]) (rule Suc.IH)
    qed
  qed
qed

lemma wf_empty_grid: "wf_grid cfg (replicate (size_cfg cfg) (replicate (size_cfg cfg) Null))"
  by (simp add: wf_grid_def list_all_iff)

text \<open>
  Whatever the random draws and the depth bound: if \<open>generateComplete\<close> returns a grid at
  all, then for a size below 9 it is the empty grid it started from (the search never
  answers true there: the sweep of \<open>findFirstEmptyCell\<close> reads row \<open>size\<close>, which does
  not exist, once rows \<open>0..size-1\<close> hold no empty cell), and for a size above 9 every
  cell outside the first nine rows and columns is still empty.
\<close>

lemma generateComplete_result:
  assumes "generateComplete fuel cfg rnd = Some (Inr g)"
  shows "wf_grid cfg g \<and>
         (size_cfg cfg < 9 \<longrightarrow> g = replicate (size_cfg cfg) (replicate (size_cfg cfg) Null)) \<and>
         (\<forall>r < size_cfg cfg. \<forall>c < size_cfg cfg. 9 \<le> r \<or> 9 \<le> c \<longrightarrow> g ! r ! c = Null)"
proof -
  let ?g0 = "replicate (size_cfg cfg) (replicate (size_cfg cfg) Null)"
  from assms obtain b rnd' where
    run: "fillGridRandomly fuel ?g0 cfg rnd = Some (Inr (b, g, rnd'))"
    unfolding generateComplete_def by (auto split: option.splits sum.splits)
  note P = fillGridRandomly_props [OF wf_empty_grid run]
  have g: "wf_grid cfg g" and unw: "\<not> b \<Longrightarrow> g = ?g0" and small: "size_cfg cfg < 9 \<Longrightarrow> \<not> b"
    and fr: "\<And>r c. 9 \<le> r \<or> 9 \<le> c \<Longrightarrow> g ! r ! c = ?g0 ! r ! c"
    using P by blast+
  have "g ! r ! c = Null" if "r < size_cfg cfg" "c < size_cfg cfg" "9 \<le> r \<or> 9 \<le> c" for r c
    using fr [OF that(3)] that(1,2) by simp
  with g unw small show ?thesis by blast
qed

lemma generateComplete_never_complete:
  assumes cfg: "wf_config cfg" and n9: "size_cfg cfg \<noteq> 9"
    and run: "generateComplete fuel cfg rnd = Some (Inr g)"
  shows "isComplete g cfg = Inr (g, False)"
proof -
  note P = generateComplete_result [OF run]
  have g: "wf_grid cfg g"
    and small: "size_cfg cfg < 9 \<Longrightarrow> g = replicate (size_cfg cfg) (replicate (size_cfg cfg) Null)"
    and big: "\<And>r c. r < size_cfg cfg \<Longrightarrow> c < size_cfg cfg \<Longrightarrow> 9 \<le> r \<or> 9 \<le> c \<Longrightarrow> g ! r ! c = Null"
    using P by blast+
  from cfg have pos: "0 < size_cfg cfg" by (simp add: wf_config_def)
  have "\<exists>p \<in> set (cells (size_cfg cfg)). g ! fst p ! snd p = Null"
  proof (cases "size_cfg cfg < 9")
    case True
    from small [OF True] pos have "g ! 0 ! 0 = Null" by simp
    with pos show ?thesis by (intro bexI [of _ "(0, 0)"]) (simp_all add: mem_cells)
  next
    case False
    with n9 have "9 < size_cfg cfg" by simp
    then have "g ! 9 ! 0 = Null" using pos by (intro big) simp_all
    with \<open>9 < size_cfg cfg\<close> pos show ?thesis
      by (intro bexI [of _ "(9, 0)"]) (simp_all add: mem_cells)
  qed
  then have "emptyCount g cfg \<noteq> 0" unfolding emptyCount_0 by blast
  then show ?thesis by (simp add: isComplete_pure [OF cfg g])
qed

lemma easy_throws:
  "generateComplete 17 (getGridConfig easy) (\<lambda>k. 0) = Some (Inl TypeError)"
  by code_simp

lemma medium_throws:
  "generateComplete 37 (getGridConfig medium) (\<lambda>k. 0) = Some (Inl TypeError)"
  by code_simp

lemma hard_partial:
  "generateComplete 82 (getGridConfig hard) (\<lambda>k. 0) = Some (Inr partial16)"
  by code_simp

text \<open>
  C1 asks that \<open>generateComplete\<close> return a complete valid grid on the three
  configurations. The code does not: with every random draw 0, on the 4x4 and on the 6x6
  configuration it throws a TypeError (once the grid is full, \<open>findFirstEmptyCell\<close>
  reads row 4, respectively row 6, which the grid does not have), and on the 16x16
  configuration it returns a grid filled only in its first nine rows and columns, for
  which \<open>isComplete\<close> is false.
\<close>

theorem generateComplete_fails:
  "generateComplete 17 (getGridConfig easy) (\<lambda>k. 0) = Some (Inl TypeError) \<and>
   generateComplete 37 (getGridConfig medium) (\<lambda>k. 0) = Some (Inl TypeError) \<and>
   generateComplete 82 (getGridConfig hard) (\<lambda>k. 0) = Some (Inr partial16) \<and>
   isComplete partial16 (getGridConfig hard) = Inr (partial16, False)"
proof -
  have "size_cfg (getGridConfig hard) \<noteq> 9" by (simp add: getGridConfig_def)
  with wf_hard have "isComplete partial16 (getGridConfig hard) = Inr (partial16, False)"
    using hard_partial by (rule generateComplete_never_complete)
  with easy_throws medium_throws hard_partial show ?thesis by blast
qed

end
